theory Spec2Isabelle
  imports Main "HOL-Library.Word"
begin

unbundle bit_operations_syntax

section \<open>The binary reader\<close>

text \<open>
  Modelled from the spec: \<^verbatim>\<open>Handle\<close>, through which the world decoder of
  \<^verbatim>\<open>src/src/world.cpp\<close> reads its input and whose source is not part of \<^verbatim>\<open>src/\<close>. The
  reader below is the one of section 4.1 of the specification: a byte buffer with a
  cursor, little-endian fixed-width reads, and \<^verbatim>\<open>UnexpectedEof\<close> on any read past the end,
  which aborts the enclosing decode.
\<close>

type_synonym byte = "8 word"

record Handle =
  hdata :: "byte list"
  hpos :: nat

text \<open>
  The error kinds of section 7 of the specification. The reader raises the first three;
  \<open>IndexOutOfRange\<close> stands for an index into a \<^verbatim>\<open>QList\<close> outside its bounds (an
  assertion failure in Qt). The others are named by the specification only: no
  definition translated from the source ever returns them.
\<close>

datatype load_error =
    UnexpectedEof
  | InvalidUtf8
  | InvalidLength
  | IndexOutOfRange
  | CorruptTileStream
  | UnknownEntityKind
  | CorruptPlayerMap

type_synonym 'a reader = "Handle \<Rightarrow> load_error + ('a \<times> Handle)"

definition ret :: "'a \<Rightarrow> 'a reader" where
  "ret a h = Inr (a, h)"

definition fail :: "load_error \<Rightarrow> 'a reader" where
  "fail e h = Inl e"

definition bindR :: "'a reader \<Rightarrow> ('a \<Rightarrow> 'b reader) \<Rightarrow> 'b reader" where
  "bindR m f h = (case m h of Inl e \<Rightarrow> Inl e | Inr (a, h') \<Rightarrow> f a h')"

text \<open>Modelled from the spec: \<^verbatim>\<open>Handle::r8\<close>, one unsigned byte.\<close>

definition r8 :: "byte reader" where
  "r8 h = (if hpos h < length (hdata h)
           then Inr (hdata h ! hpos h, h\<lparr>hpos := hpos h + 1\<rparr>)
           else Inl UnexpectedEof)"

text \<open>
  Modelled from the spec: \<^verbatim>\<open>Handle::r16\<close> and \<^verbatim>\<open>Handle::r32\<close>, little-endian. They
  return the raw word; the specification types them \<^verbatim>\<open>i16\<close> and \<^verbatim>\<open>i32\<close>, so a caller that
  stores the result in a C++ \<^verbatim>\<open>int\<close> reads it with \<^const>\<open>sint\<close>.
\<close>

definition r16 :: "16 word reader" where
  "r16 = bindR r8 (\<lambda>b0. bindR r8 (\<lambda>b1.
           ret (ucast b0 OR push_bit 8 (ucast b1))))"

definition r32 :: "32 word reader" where
  "r32 = bindR r8 (\<lambda>b0. bindR r8 (\<lambda>b1. bindR r8 (\<lambda>b2. bindR r8 (\<lambda>b3.
           ret (ucast b0 OR push_bit 8 (ucast b1) OR push_bit 16 (ucast b2)
                OR push_bit 24 (ucast b3))))))"

text \<open>Modelled from the spec: \<^verbatim>\<open>Handle::rf\<close>; the IEEE-754 bit pattern is kept as it is.\<close>

definition rf :: "32 word reader" where
  "rf = r32"

text \<open>
  Modelled from the spec: \<^verbatim>\<open>Handle::skip\<close> and \<^verbatim>\<open>Handle::seek\<close> take an unsigned
  64-bit count; only reads fail. A C++ \<^verbatim>\<open>int\<close> argument is converted to \<^verbatim>\<open>u64\<close>.
\<close>

definition skip :: "nat \<Rightarrow> unit reader" where
  "skip n h = Inr ((), h\<lparr>hpos := hpos h + n\<rparr>)"

definition seek :: "int \<Rightarrow> unit reader" where
  "seek p h = Inr ((), h\<lparr>hpos := nat (p mod 2 ^ 64)\<rparr>)"

text \<open>
  Modelled from the spec: \<^verbatim>\<open>Handle::read\<close> and \<^verbatim>\<open>Handle::readBytes\<close>, a raw slice of
  \<open>n\<close> bytes. Strings are kept as their bytes.
\<close>

definition readBytes :: "nat \<Rightarrow> byte list reader" where
  "readBytes n h = (if hpos h + n \<le> length (hdata h)
                    then Inr (take n (drop (hpos h) (hdata h)), h\<lparr>hpos := hpos h + n\<rparr>)
                    else Inl UnexpectedEof)"

text \<open>
  Modelled from the spec: the test behind the \<^verbatim>\<open>InvalidUtf8\<close> error of \<^verbatim>\<open>Handle::rs\<close>,
  well-formed UTF-8 as RFC 3629 defines it.
\<close>

definition cont_byte :: "byte \<Rightarrow> bool" where
  "cont_byte b = (0x80 \<le> b \<and> b \<le> 0xBF)"

fun valid_utf8 :: "byte list \<Rightarrow> bool" where
  "valid_utf8 [] = True"
| "valid_utf8 [b0] = (b0 < 0x80)"
| "valid_utf8 [b0, b1] =
     (if b0 < 0x80 then valid_utf8 [b1]
      else 0xC2 \<le> b0 \<and> b0 \<le> 0xDF \<and> cont_byte b1)"
| "valid_utf8 [b0, b1, b2] =
     (if b0 < 0x80 then valid_utf8 [b1, b2]
      else if 0xC2 \<le> b0 \<and> b0 \<le> 0xDF then cont_byte b1 \<and> valid_utf8 [b2]
      else 0xE0 \<le> b0 \<and> b0 \<le> 0xEF \<and> cont_byte b1 \<and> cont_byte b2
           \<and> (b0 = 0xE0 \<longrightarrow> 0xA0 \<le> b1) \<and> (b0 = 0xED \<longrightarrow> b1 \<le> 0x9F))"
| "valid_utf8 (b0 # b1 # b2 # b3 # bs) =
     (if b0 < 0x80 then valid_utf8 (b1 # b2 # b3 # bs)
      else if 0xC2 \<le> b0 \<and> b0 \<le> 0xDF then cont_byte b1 \<and> valid_utf8 (b2 # b3 # bs)
      else if 0xE0 \<le> b0 \<and> b0 \<le> 0xEF then
        cont_byte b1 \<and> cont_byte b2
        \<and> (b0 = 0xE0 \<longrightarrow> 0xA0 \<le> b1) \<and> (b0 = 0xED \<longrightarrow> b1 \<le> 0x9F)
        \<and> valid_utf8 (b3 # bs)
      else 0xF0 \<le> b0 \<and> b0 \<le> 0xF4 \<and> cont_byte b1 \<and> cont_byte b2 \<and> cont_byte b3
           \<and> (b0 = 0xF0 \<longrightarrow> 0x90 \<le> b1) \<and> (b0 = 0xF4 \<longrightarrow> b1 \<le> 0x8F)
           \<and> valid_utf8 bs)"

text \<open>
  Modelled from the spec: \<^verbatim>\<open>Handle::rs\<close>. The length prefix has 7 bits per byte, the
  high bit announcing another byte, at most five bytes and at most \<open>2^31 - 1\<close>.
\<close>

fun rs_length :: "nat \<Rightarrow> nat \<Rightarrow> nat \<Rightarrow> nat reader" where
  "rs_length 0 shift acc h = Inl InvalidLength"
| "rs_length (Suc k) shift acc h =
     (case r8 h of
        Inl e \<Rightarrow> Inl e
      | Inr (b, h') \<Rightarrow>
          (let acc' = acc + unat (b AND 0x7F) * 2 ^ shift
           in if b AND 0x80 \<noteq> 0 then rs_length k (shift + 7) acc' h'
              else if acc' < 2 ^ 31 then Inr (acc', h') else Inl InvalidLength))"

definition rs :: "byte list reader" where
  "rs = bindR (rs_length 5 0 0) (\<lambda>n. bindR (readBytes n) (\<lambda>bs.
          if valid_utf8 bs then ret bs else fail InvalidUtf8))"

text \<open>A counted loop whose body does not change the counter: \<^verbatim>\<open>for (i = 0; i < n; i++)\<close>.\<close>

fun repeatR :: "nat \<Rightarrow> ('s \<Rightarrow> 's reader) \<Rightarrow> 's \<Rightarrow> 's reader" where
  "repeatR 0 body s = ret s"
| "repeatR (Suc n) body s = bindR (body s) (repeatR n body)"

section \<open>Facts about the reader\<close>

lemma bindR_InrE:
  assumes "bindR m f h = Inr r"
  obtains a h1 where "m h = Inr (a, h1)" and "f a h1 = Inr r"
  using assms by (auto simp: bindR_def split: sum.splits)

lemma ret_Inr [simp]: "ret a h = Inr r \<longleftrightarrow> r = (a, h)"
  by (auto simp: ret_def)

lemma fail_Inr [simp]: "fail e h \<noteq> Inr r"
  by (simp add: fail_def)

text \<open>
  A reader that keeps the data and never moves the cursor back, and one that moreover
  consumes at least one byte. Every loop of the decoder that runs until the input tells
  it to stop has a body of the second kind, which is why it ends.
\<close>

definition forward :: "'a reader \<Rightarrow> bool" where
  "forward m = (\<forall>h r h'. m h = Inr (r, h') \<longrightarrow> hdata h' = hdata h \<and> hpos h \<le> hpos h')"

definition advancing :: "'a reader \<Rightarrow> bool" where
  "advancing m = (\<forall>h r h'. m h = Inr (r, h') \<longrightarrow>
     hdata h' = hdata h \<and> hpos h < hpos h' \<and> hpos h < length (hdata h))"

lemma advancing_mono: "advancing m \<Longrightarrow> forward m"
  by (auto simp: advancing_def forward_def dest: less_imp_le)

lemma forward_ret [simp]: "forward (ret a)"
  by (simp add: forward_def)

lemma forward_fail [simp]: "forward (fail e)"
  by (simp add: forward_def)

lemma advancing_r8 [simp]: "advancing r8"
  by (auto simp: advancing_def r8_def split: if_splits)

lemma advancing_bindR: "advancing m \<Longrightarrow> (\<And>a. forward (f a)) \<Longrightarrow> advancing (bindR m f)"
  unfolding advancing_def forward_def
  by (fastforce elim!: bindR_InrE)

lemma forward_bindR: "forward m \<Longrightarrow> (\<And>a. forward (f a)) \<Longrightarrow> forward (bindR m f)"
  unfolding forward_def
  by (fastforce elim!: bindR_InrE)

lemma forward_if: "forward m \<Longrightarrow> forward n \<Longrightarrow> forward (if c then m else n)"
  by simp

lemma advancing_if: "advancing m \<Longrightarrow> advancing n \<Longrightarrow> advancing (if c then m else n)"
  by simp

lemma forward_r8 [simp]: "forward r8"
  by (simp add: advancing_mono)

lemma advancing_r16 [simp]: "advancing r16"
  unfolding r16_def by (intro advancing_bindR forward_bindR) simp_all

lemma advancing_r32 [simp]: "advancing r32"
  unfolding r32_def by (intro advancing_bindR forward_bindR) simp_all

lemma forward_r16 [simp]: "forward r16" by (simp add: advancing_mono)
lemma forward_r32 [simp]: "forward r32" by (simp add: advancing_mono)
lemma forward_rf [simp]: "forward rf" by (simp add: rf_def)

lemma forward_readBytes [simp]: "forward (readBytes n)"
  by (auto simp: forward_def readBytes_def split: if_splits)

lemma forward_skip [simp]: "forward (skip n)"
  by (auto simp: forward_def skip_def)

lemma forward_rs_length: "forward (rs_length k sh acc)"
  unfolding forward_def
proof (induction k arbitrary: sh acc)
  case 0 show ?case by simp
next
  case (Suc k)
  show ?case
    using Suc.IH advancing_r8
    by (fastforce simp: Let_def advancing_def split: sum.splits if_splits)
qed

lemma forward_rs [simp]: "forward rs"
  unfolding rs_def by (intro forward_bindR forward_rs_length forward_if) simp_all

lemma forward_repeatR: "(\<And>s. forward (body s)) \<Longrightarrow> forward (repeatR n body s)"
  by (induction n arbitrary: s) (auto intro!: forward_bindR)

lemma forward_case_prod: "(\<And>a b. forward (f a b)) \<Longrightarrow> forward (case p of (a, b) \<Rightarrow> f a b)"
  by (cases p) simp

lemma forward_Let: "(\<And>x. forward (f x)) \<Longrightarrow> forward (Let v f)"
  by (simp add: Let_def)

lemmas forward_intros = forward_bindR forward_if forward_repeatR forward_case_prod forward_Let


section \<open>Tiles\<close>

text \<open>
  Modelled from the spec: the fields of \<^verbatim>\<open>Tile\<close>, whose declaration is in \<^verbatim>\<open>world.h\<close>,
  outside \<^verbatim>\<open>src/\<close>. They are the fields that \<^verbatim>\<open>Tile::load\<close> assigns, with the widths of
  section 3 of the specification; \<open>-1\<close> in a signed 16-bit field is \<open>0xFFFF\<close>.
\<close>

record Tile =
  t_type :: "16 word"
  t_wall :: "16 word"
  t_u :: "16 word"
  t_v :: "16 word"
  t_wallu :: "16 word"
  t_wallv :: "16 word"
  t_color :: byte
  t_wallColor :: byte
  t_liquid :: byte
  t_slope :: byte
  t_flags :: "16 word"

definition active :: "Tile \<Rightarrow> bool" where
  "active t = (t_flags t AND 1 \<noteq> 0)"

definition lava :: "Tile \<Rightarrow> bool" where
  "lava t = (t_flags t AND 2 \<noteq> 0)"

definition honey :: "Tile \<Rightarrow> bool" where
  "honey t = (t_flags t AND 4 \<noteq> 0)"

definition seen :: "Tile \<Rightarrow> bool" where
  "seen t = (t_flags t AND 0x200 \<noteq> 0)"

definition setSeen :: "bool \<Rightarrow> Tile \<Rightarrow> Tile" where
  "setSeen s t = (if s then t\<lparr>t_flags := t_flags t OR 0x200\<rparr>
                  else t\<lparr>t_flags := t_flags t AND NOT 0x200\<rparr>)"

text \<open>\<^verbatim>\<open>if (c) flags |= m;\<close>\<close>

definition set_if :: "bool \<Rightarrow> 16 word \<Rightarrow> 16 word \<Rightarrow> 16 word" where
  "set_if c m fl = (if c then fl OR m else fl)"

subsection \<open>\<^verbatim>\<open>Tile::load\<close>\<close>

text \<open>
  \<^verbatim>\<open>Tile::load\<close> writes into the tile it is called on and leaves the fields it does not
  assign as they were, so the model takes the tile before the call. It is given block by
  block, in the order of the source. Lines 639 to 644: the flag bytes.
\<close>

definition load_flags :: "(byte \<times> byte \<times> byte) reader" where
  "load_flags =
     bindR r8 (\<lambda>flags1.
       if flags1 AND 1 \<noteq> 0 then
         bindR r8 (\<lambda>flags2.
           if flags2 AND 1 \<noteq> 0 then bindR r8 (\<lambda>flags3. ret (flags1, flags2, flags3))
           else ret (flags1, flags2, 0))
       else ret (flags1, 0, 0))"

text \<open>
  Lines 647 to 661: the type, \<open>u\<close> and \<open>v\<close>, and the colour of an active tile. \<^verbatim>\<open>extra[type]\<close>
  outside the list is \<open>IndexOutOfRange\<close>.
\<close>

definition load_active :: "bool list \<Rightarrow> byte \<Rightarrow> byte \<Rightarrow> Tile \<Rightarrow> Tile reader" where
  "load_active extra flags1 flags3 t =
     (if flags1 AND 2 \<noteq> 0 then
        bindR r8 (\<lambda>b0.
        bindR (if flags1 AND 0x20 \<noteq> 0
               then bindR r8 (\<lambda>b1. ret (ucast b0 OR push_bit 8 (ucast b1)))
               else ret (ucast b0)) (\<lambda>ty.
        if unat ty < length extra then
          bindR (if extra ! unat ty
                 then bindR r16 (\<lambda>u. bindR r16 (\<lambda>v.
                        ret (t\<lparr>t_type := ty, t_u := u, t_v := v\<rparr>)))
                 else ret (t\<lparr>t_type := ty, t_u := - 1, t_v := - 1\<rparr>)) (\<lambda>t1.
          if flags3 AND 8 \<noteq> 0 then bindR r8 (\<lambda>c. ret (t1\<lparr>t_color := c\<rparr>))
          else ret t1)
        else fail IndexOutOfRange))
      else ret (t\<lparr>t_type := 0\<rparr>))"

text \<open>Lines 662 to 669: the wall.\<close>

definition load_wall :: "byte \<Rightarrow> byte \<Rightarrow> Tile \<Rightarrow> Tile reader" where
  "load_wall flags1 flags3 t =
     (if flags1 AND 4 \<noteq> 0 then
        bindR r8 (\<lambda>w.
        bindR (if flags3 AND 0x10 \<noteq> 0
               then bindR r8 (\<lambda>c. ret (t\<lparr>t_wall := ucast w, t_wallColor := c\<rparr>))
               else ret (t\<lparr>t_wall := ucast w\<rparr>)) (\<lambda>t1.
        ret (t1\<lparr>t_wallu := - 1, t_wallv := - 1\<rparr>)))
      else ret (t\<lparr>t_wall := 0\<rparr>))"

text \<open>Lines 670 to 681: the liquid and its kind.\<close>

definition load_liquid :: "byte \<Rightarrow> byte \<Rightarrow> Tile \<Rightarrow> Tile reader" where
  "load_liquid flags1 flags3 t =
     (if flags1 AND 0x18 \<noteq> 0 then
        bindR r8 (\<lambda>l.
          ret (t\<lparr>t_liquid := l,
                 t_flags := set_if (flags3 AND 0x80 \<noteq> 0) 0x800
                             (set_if (flags1 AND 0x18 = 0x18) 4
                               (set_if (flags1 AND 0x18 = 0x10) 2 (t_flags t)))\<rparr>))
      else ret (t\<lparr>t_liquid := 0\<rparr>))"

text \<open>Lines 682 to 700: wires, slope, actuator, and the high byte of a two-byte wall.\<close>

definition load_wires :: "byte \<Rightarrow> byte \<Rightarrow> Tile \<Rightarrow> Tile reader" where
  "load_wires flags2 flags3 t =
     (let slop = drop_bit 4 flags2 AND 7;
          fl = set_if (flags3 AND 32 \<noteq> 0) 0x400
                (set_if (flags3 AND 4 \<noteq> 0) 0x100
                  (set_if (flags3 AND 2 \<noteq> 0) 0x80
                    (set_if (slop = 1) 0x40
                      (set_if (flags2 AND 8 \<noteq> 0) 0x20
                        (set_if (flags2 AND 4 \<noteq> 0) 0x10
                          (set_if (flags2 AND 2 \<noteq> 0) 8 (t_flags t)))))));
          t1 = t\<lparr>t_slope := (if 1 < slop then slop - 1 else 0), t_flags := fl\<rparr>
      in if flags3 AND 64 \<noteq> 0
         then bindR r8 (\<lambda>b. ret (t1\<lparr>t_wall := t_wall t1 OR push_bit 8 (ucast b)\<rparr>))
         else ret t1)"

text \<open>Lines 639 to 700 together: everything before the run length.\<close>

definition Tile_fields :: "bool list \<Rightarrow> Tile \<Rightarrow> (byte \<times> Tile) reader" where
  "Tile_fields extra t =
     bindR load_flags (\<lambda>(flags1, flags2, flags3).
     bindR (load_active extra flags1 flags3
              (t\<lparr>t_flags := (if flags1 AND 2 \<noteq> 0 then 1 else 0)\<rparr>)) (\<lambda>t1.
     bindR (load_wall flags1 flags3 t1) (\<lambda>t2.
     bindR (load_liquid flags1 flags3 t2) (\<lambda>t3.
     bindR (load_wires flags2 flags3 t3) (\<lambda>t4.
     ret (flags1, t4))))))"

text \<open>Lines 702 to 711: the run length, an \<^verbatim>\<open>int\<close>.\<close>

definition Tile_rle :: "byte \<Rightarrow> int reader" where
  "Tile_rle flags1 =
     (if drop_bit 6 flags1 = 1 then bindR r8 (\<lambda>b. ret (uint b))
      else if drop_bit 6 flags1 = 2 then bindR r16 (\<lambda>w. ret (sint w))
      else ret 0)"

definition Tile_load :: "bool list \<Rightarrow> Tile \<Rightarrow> (int \<times> Tile) reader" where
  "Tile_load extra t =
     bindR (Tile_fields extra t) (\<lambda>(flags1, t').
     bindR (Tile_rle flags1) (\<lambda>rle. ret (rle, t')))"

definition blank_tile :: Tile where
  "blank_tile = \<lparr>t_type = 0, t_wall = 0, t_u = 0, t_v = 0, t_wallu = 0, t_wallv = 0,
                 t_color = 0, t_wallColor = 0, t_liquid = 0, t_slope = 0, t_flags = 0\<rparr>"

subsection \<open>The codec consumes input\<close>

lemma advancing_load_flags: "advancing load_flags"
  unfolding load_flags_def by (intro advancing_bindR forward_intros) simp_all

lemma forward_load_active: "forward (load_active extra f1 f3 t)"
  unfolding load_active_def by (intro forward_intros) simp_all

lemma forward_load_wall: "forward (load_wall f1 f3 t)"
  unfolding load_wall_def by (intro forward_intros) simp_all

lemma forward_load_liquid: "forward (load_liquid f1 f3 t)"
  unfolding load_liquid_def by (intro forward_intros) simp_all

lemma forward_load_wires: "forward (load_wires f2 f3 t)"
  unfolding load_wires_def by (intro forward_intros) simp_all

lemma forward_Tile_rle: "forward (Tile_rle f1)"
  unfolding Tile_rle_def by (intro forward_intros) simp_all

lemma advancing_Tile_load: "advancing (Tile_load extra t)"
  unfolding Tile_load_def Tile_fields_def
  by (intro advancing_bindR advancing_load_flags forward_intros forward_load_active forward_load_wall
        forward_load_liquid forward_load_wires forward_Tile_rle) simp_all

section \<open>The world\<close>

text \<open>
  Modelled from the spec: the records of \<^verbatim>\<open>world.h\<close> (outside \<^verbatim>\<open>src/\<close>) that the section
  decoders fill, with the fields the source assigns and the types of section 3 of the
  specification. A \<^verbatim>\<open>QString\<close> read from a file is kept as its bytes; a \<^verbatim>\<open>float\<close> as its
  bit pattern.
\<close>

type_synonym qstring = "byte list"

record Item =
  i_stack :: int
  i_name :: qstring
  i_prefix :: qstring

record Chest =
  c_x :: int
  c_y :: int
  c_name :: qstring
  c_items :: "Item list"

record Sign =
  s_x :: int
  s_y :: int
  s_text :: qstring

record NPC =
  n_title :: qstring
  n_name :: qstring
  n_x :: "32 word"
  n_y :: "32 word"
  n_homeless :: bool
  n_homeX :: int
  n_homeY :: int
  n_sprite :: int
  n_head :: int
  n_townVariation :: int

datatype Entity =
    TrainingDummy int int int int
  | ItemFrame int int int int int int
  | LogicSensor int int int int bool

text \<open>
  Modelled from the spec: the keys of the header property bag that the decoder uses
  (\<^verbatim>\<open>WorldHeader\<close> is outside \<^verbatim>\<open>src/\<close>); \<open>hd_guid\<close> is \<open>None\<close> when \<^verbatim>\<open>has("guid")\<close> is false.
\<close>

record WorldHeader =
  hd_tilesWide :: int
  hd_tilesHigh :: int
  hd_worldID :: int
  hd_guid :: "byte list option"

text \<open>Modelled from the spec: an entry of \<^verbatim>\<open>InfoDB.npcs_by_id\<close> and \<^verbatim>\<open>npcs_by_name\<close>.\<close>

record NpcInfo =
  ni_head :: int
  ni_title :: qstring
  ni_id :: int

text \<open>The signals \<^verbatim>\<open>loadError\<close> and \<^verbatim>\<open>loaded\<close>; the advisory \<^verbatim>\<open>status\<close> signal is left out.\<close>

datatype event = LoadError string | Loaded bool

text \<open>
  The tile array is a store from offsets to tiles: \<^verbatim>\<open>tiles[offset]\<close> is \<open>tiles w offset\<close>, and
  a write at an offset outside \<open>0 ..< tilesWide * tilesHigh\<close> is a write to the cell at
  that offset, which the array does not own. Offsets, coordinates and run lengths are C++
  \<^verbatim>\<open>int\<close>s; they are unbounded integers here (signed overflow is undefined in C++).
\<close>

record World =
  filename :: string
  player :: string
  tilesWide :: int
  tilesHigh :: int
  tiles :: "int \<Rightarrow> Tile"
  header :: WorldHeader
  chests :: "Chest list"
  signs :: "Sign list"
  npcs :: "NPC list"
  shimmered :: "int \<Rightarrow> bool"
  entities :: "Entity list"
  kills :: "qstring \<Rightarrow> int option"
  seenNPCs :: "qstring list"
  chats :: "qstring list"
  events :: "event list"

text \<open>
  What the decoder takes from outside \<^verbatim>\<open>src/\<close>: the version constants, the header decoder,
  the definitions registry (\<^verbatim>\<open>operator[]\<close> of a Qt container gives a default value for a
  missing key, so \<open>info_items\<close> and \<open>info_prefixes\<close> are total), the content of a freshly
  constructed \<^verbatim>\<open>Tile\<close> and \<^verbatim>\<open>NPC\<close>, the file system, and zlib's raw inflate.
\<close>

record Env =
  HighestVersion :: int
  MinimumVersion :: int
  header_load :: "int \<Rightarrow> WorldHeader reader"
  info_items :: "int \<Rightarrow> qstring"
  info_prefixes :: "int \<Rightarrow> qstring"
  npcsById :: "int \<Rightarrow> NpcInfo option"
  npcsByName :: "qstring \<Rightarrow> NpcInfo option"
  new_Tile :: Tile
  new_NPC :: NPC
  dir_exists :: "string \<Rightarrow> bool"
  file_bytes :: "string \<Rightarrow> byte list"
  inflate :: "byte list \<Rightarrow> byte list"
  toNativeSeparators :: "string \<Rightarrow> string"

definition emit :: "event \<Rightarrow> World \<Rightarrow> World" where
  "emit e w = w\<lparr>events := events w @ [e]\<rparr>"

subsection \<open>The bitmap loop\<close>

text \<open>
  Lines 80 to 91 of \<^verbatim>\<open>World::run\<close>, and twice more in \<^verbatim>\<open>World::loadPlayer2\<close> (lines 534 to
  558): \<open>n\<close> iterations left, the walking mask, the current byte, the list so far.
\<close>

fun readBits :: "nat \<Rightarrow> byte \<Rightarrow> byte \<Rightarrow> bool list \<Rightarrow> bool list reader" where
  "readBits 0 msk bits acc h = Inr (acc, h)"
| "readBits (Suc n) msk bits acc h =
     (if msk = 0x80 then
        (case r8 h of
           Inl e \<Rightarrow> Inl e
         | Inr (b, h') \<Rightarrow> readBits n 1 b (acc @ [b AND 1 \<noteq> 0]) h')
      else readBits n (push_bit 1 msk) bits (acc @ [bits AND push_bit 1 msk \<noteq> 0]) h)"

definition readBitmap :: "int \<Rightarrow> bool list reader" where
  "readBitmap numTiles = readBits (nat numTiles) 0x80 0 []"

subsection \<open>\<^verbatim>\<open>World::loadTiles\<close>\<close>

text \<open>Lines 152 to 154: the copy of the decoded tile into the \<open>rle\<close> cells below.\<close>

definition copy_cell :: "int \<Rightarrow> int \<Rightarrow> int \<times> (int \<Rightarrow> Tile) \<Rightarrow> int \<times> (int \<Rightarrow> Tile)" where
  "copy_cell wide offset = (\<lambda>(destOffset, ts). (destOffset + wide, ts(destOffset := ts offset)))"

definition copy_run :: "int \<Rightarrow> int \<Rightarrow> int \<Rightarrow> (int \<Rightarrow> Tile) \<Rightarrow> int \<times> (int \<Rightarrow> Tile)" where
  "copy_run rle wide offset ts = (copy_cell wide offset ^^ nat rle) (offset + wide, ts)"

lemma advancing_less:
  "advancing m \<Longrightarrow> m h = Inr (r, h') \<Longrightarrow> length (hdata h') - hpos h' < length (hdata h) - hpos h"
  unfolding advancing_def by fastforce

lemma Tile_load_less:
  "Tile_load extra t h = Inr (r, h') \<Longrightarrow> length (hdata h') - hpos h' < length (hdata h) - hpos h"
  using advancing_Tile_load by (rule advancing_less)

text \<open>Lines 149 to 157: one column, from row \<open>y\<close> at \<open>offset\<close>.\<close>

function loadColumn ::
  "int \<Rightarrow> int \<Rightarrow> bool list \<Rightarrow> int \<Rightarrow> int \<Rightarrow> (int \<Rightarrow> Tile) \<Rightarrow> (int \<Rightarrow> Tile) reader" where
  "loadColumn wide high extra y offset ts h =
     (if y < high then
        (case Tile_load extra (ts offset) h of
           Inl e \<Rightarrow> Inl e
         | Inr ((rle, t), h') \<Rightarrow>
             (case copy_run rle wide offset (ts(offset := t)) of
                (destOffset, ts') \<Rightarrow>
                  loadColumn wide high extra (y + rle + 1) destOffset ts' h'))
      else Inr (ts, h))"
  by pat_completeness auto
termination
  by (relation "measure (\<lambda>(wide, high, extra, y, offset, ts, h). length (hdata h) - hpos h)")
     (auto intro: Tile_load_less)

declare loadColumn.simps [simp del]

text \<open>Lines 145 to 158: the columns from \<open>x\<close> on.\<close>

function loadColumns ::
  "int \<Rightarrow> int \<Rightarrow> bool list \<Rightarrow> int \<Rightarrow> (int \<Rightarrow> Tile) \<Rightarrow> (int \<Rightarrow> Tile) reader" where
  "loadColumns wide high extra x ts h =
     (if x < wide then
        (case loadColumn wide high extra 0 x ts h of
           Inl e \<Rightarrow> Inl e
         | Inr (ts', h') \<Rightarrow> loadColumns wide high extra (x + 1) ts' h')
      else Inr (ts, h))"
  by pat_completeness auto
termination
  by (relation "measure (\<lambda>(wide, high, extra, x, ts, h). nat (wide - x))") auto

declare loadColumns.simps [simp del]

definition loadTiles :: "bool list \<Rightarrow> World \<Rightarrow> World reader" where
  "loadTiles extra w =
     bindR (loadColumns (tilesWide w) (tilesHigh w) extra 0 (tiles w))
       (\<lambda>ts. ret (w\<lparr>tiles := ts\<rparr>))"

subsection \<open>\<^verbatim>\<open>World::loadHeader\<close>\<close>

text \<open>Lines 134 to 141. \<^verbatim>\<open>new Tile[tilesWide * tilesHigh]\<close> gives every cell the fresh tile.\<close>

definition loadHeader :: "Env \<Rightarrow> int \<Rightarrow> World \<Rightarrow> World reader" where
  "loadHeader env version w =
     bindR (header_load env version) (\<lambda>hd.
       ret (w\<lparr>header := hd, tilesHigh := hd_tilesHigh hd, tilesWide := hd_tilesWide hd,
              tiles := (\<lambda>_. new_Tile env)\<rparr>))"

subsection \<open>\<^verbatim>\<open>World::loadChests\<close>\<close>

text \<open>Lines 172 to 179: one item slot, appended to the items read so far.\<close>

definition loadSlot :: "Env \<Rightarrow> Item list \<Rightarrow> Item list reader" where
  "loadSlot env items =
     bindR r16 (\<lambda>st.
       if 0 < sint st then
         bindR r32 (\<lambda>itemid. bindR r8 (\<lambda>prefixid.
           ret (items @ [\<lparr>i_stack = sint st, i_name = info_items env (sint itemid),
                           i_prefix = info_prefixes env (uint prefixid)\<rparr>])))
       else ret items)"

text \<open>Lines 167 to 181: one chest.\<close>

definition loadChest :: "Env \<Rightarrow> int \<Rightarrow> Chest reader" where
  "loadChest env itemsPerChest =
     bindR r32 (\<lambda>x. bindR r32 (\<lambda>y. bindR rs (\<lambda>name.
     bindR (repeatR (nat itemsPerChest) (loadSlot env) []) (\<lambda>items.
       ret \<lparr>c_x = sint x, c_y = sint y, c_name = name, c_items = items\<rparr>))))"

definition loadChests :: "Env \<Rightarrow> World \<Rightarrow> World reader" where
  "loadChests env w =
     bindR r16 (\<lambda>numChests. bindR r16 (\<lambda>itemsPerChest.
     bindR (repeatR (nat (sint numChests))
              (\<lambda>cs. bindR (loadChest env (sint itemsPerChest)) (\<lambda>c. ret (cs @ [c]))) [])
       (\<lambda>cs. ret (w\<lparr>chests := cs\<rparr>))))"

subsection \<open>\<^verbatim>\<open>World::loadSigns\<close>\<close>

definition loadSign :: "Sign reader" where
  "loadSign = bindR rs (\<lambda>text. bindR r32 (\<lambda>x. bindR r32 (\<lambda>y.
                ret \<lparr>s_x = sint x, s_y = sint y, s_text = text\<rparr>)))"

definition loadSigns :: "World \<Rightarrow> World reader" where
  "loadSigns w =
     bindR r16 (\<lambda>numSigns.
     bindR (repeatR (nat (sint numSigns)) (\<lambda>ss. bindR loadSign (\<lambda>s. ret (ss @ [s]))) [])
       (\<lambda>ss. ret (w\<lparr>signs := ss\<rparr>)))"

subsection \<open>\<^verbatim>\<open>World::loadNPCs\<close>\<close>

text \<open>Lines 208 to 234: the body of the first loop.\<close>

definition loadHomedNPC :: "Env \<Rightarrow> int \<Rightarrow> NPC reader" where
  "loadHomedNPC env version =
     bindR (if 190 \<le> version then
              bindR r32 (\<lambda>sp.
                ret (case npcsById env (sint sp) of
                       Some theNPC \<Rightarrow> (new_NPC env)\<lparr>n_head := ni_head theNPC,
                                         n_sprite := sint sp, n_title := ni_title theNPC\<rparr>
                     | None \<Rightarrow> (new_NPC env)\<lparr>n_head := 0, n_sprite := sint sp\<rparr>))
            else
              bindR rs (\<lambda>title.
                ret (case npcsByName env title of
                       Some theNPC \<Rightarrow> (new_NPC env)\<lparr>n_head := ni_head theNPC,
                                         n_sprite := ni_id theNPC, n_title := title\<rparr>
                     | None \<Rightarrow> (new_NPC env)\<lparr>n_head := 0, n_sprite := 0, n_title := title\<rparr>)))
       (\<lambda>npc.
     bindR rs (\<lambda>name. bindR rf (\<lambda>x. bindR rf (\<lambda>y. bindR r8 (\<lambda>homeless.
     bindR r32 (\<lambda>homeX. bindR r32 (\<lambda>homeY.
     bindR (if 213 \<le> version then r8 else ret 0) (\<lambda>hasVariation.
     bindR (if hasVariation \<noteq> 0
            then bindR r32 (\<lambda>tv. ret (npc\<lparr>n_townVariation := sint tv\<rparr>))
            else ret npc) (\<lambda>npc1.
       ret (npc1\<lparr>n_name := name, n_x := x, n_y := y, n_homeless := (homeless \<noteq> 0),
                  n_homeX := sint homeX, n_homeY := sint homeY\<rparr>))))))))))"

lemma forward_case_option:
  "forward m \<Longrightarrow> (\<And>x. forward (f x)) \<Longrightarrow> forward (case opt of None \<Rightarrow> m | Some x \<Rightarrow> f x)"
  by (cases opt) simp_all

lemma forward_loadHomedNPC: "forward (loadHomedNPC env version)"
  unfolding loadHomedNPC_def by (intro forward_intros) simp_all

lemma forward_less_eq:
  "forward m \<Longrightarrow> m h = Inr (r, h') \<Longrightarrow> length (hdata h') - hpos h' \<le> length (hdata h) - hpos h"
  unfolding forward_def by fastforce

lemma r8_less:
  "r8 h = Inr (r, h') \<Longrightarrow> length (hdata h') - hpos h' < length (hdata h) - hpos h"
  using advancing_r8 by (rule advancing_less)

text \<open>Lines 207 to 236: \<^verbatim>\<open>while (handle->r8())\<close>.\<close>

function loadHomedNPCs :: "Env \<Rightarrow> int \<Rightarrow> NPC list \<Rightarrow> NPC list reader" where
  "loadHomedNPCs env version ns h =
     (case r8 h of
        Inl e \<Rightarrow> Inl e
      | Inr (marker, h1) \<Rightarrow>
          if marker \<noteq> 0 then
            (case loadHomedNPC env version h1 of
               Inl e \<Rightarrow> Inl e
             | Inr (npc, h2) \<Rightarrow> loadHomedNPCs env version (ns @ [npc]) h2)
          else Inr (ns, h1))"
  by pat_completeness auto
termination
proof (relation "measure (\<lambda>(env, version, ns, h). length (hdata h) - hpos h)", goal_cases)
  case 1
  show ?case by simp
next
  case (2 env version ns h x2 marker h1 x2a npc h2)
  from 2 have a: "r8 h = Inr (marker, h1)" and b: "loadHomedNPC env version h1 = Inr (npc, h2)"
    by simp_all
  from r8_less [OF a] forward_less_eq [OF forward_loadHomedNPC b] show ?case by simp
qed

declare loadHomedNPCs.simps [simp del]

text \<open>Lines 239 to 257: the body of the second loop.\<close>

definition loadHomelessNPC :: "Env \<Rightarrow> int \<Rightarrow> NPC reader" where
  "loadHomelessNPC env version =
     bindR (if 190 \<le> version then
              bindR r32 (\<lambda>sp.
                ret (case npcsById env (sint sp) of
                       Some theNPC \<Rightarrow> (new_NPC env)\<lparr>n_sprite := sint sp,
                                         n_title := ni_title theNPC\<rparr>
                     | None \<Rightarrow> (new_NPC env)\<lparr>n_sprite := sint sp\<rparr>))
            else
              bindR rs (\<lambda>title.
                ret (case npcsByName env title of
                       Some theNPC \<Rightarrow> (new_NPC env)\<lparr>n_sprite := ni_id theNPC, n_title := title\<rparr>
                     | None \<Rightarrow> (new_NPC env)\<lparr>n_title := title\<rparr>)))
       (\<lambda>npc.
     bindR rf (\<lambda>x. bindR rf (\<lambda>y.
       ret (npc\<lparr>n_name := [], n_x := x, n_y := y, n_homeless := True\<rparr>))))"

lemma forward_loadHomelessNPC: "forward (loadHomelessNPC env version)"
  unfolding loadHomelessNPC_def by (intro forward_intros) simp_all

function loadHomelessNPCs :: "Env \<Rightarrow> int \<Rightarrow> NPC list \<Rightarrow> NPC list reader" where
  "loadHomelessNPCs env version ns h =
     (case r8 h of
        Inl e \<Rightarrow> Inl e
      | Inr (marker, h1) \<Rightarrow>
          if marker \<noteq> 0 then
            (case loadHomelessNPC env version h1 of
               Inl e \<Rightarrow> Inl e
             | Inr (npc, h2) \<Rightarrow> loadHomelessNPCs env version (ns @ [npc]) h2)
          else Inr (ns, h1))"
  by pat_completeness auto
termination
proof (relation "measure (\<lambda>(env, version, ns, h). length (hdata h) - hpos h)", goal_cases)
  case 1
  show ?case by simp
next
  case (2 env version ns h x2 marker h1 x2a npc h2)
  from 2 have a: "r8 h = Inr (marker, h1)" and b: "loadHomelessNPC env version h1 = Inr (npc, h2)"
    by simp_all
  from r8_less [OF a] forward_less_eq [OF forward_loadHomelessNPC b] show ?case by simp
qed

declare loadHomelessNPCs.simps [simp del]

definition loadNPCs :: "Env \<Rightarrow> int \<Rightarrow> World \<Rightarrow> World reader" where
  "loadNPCs env version w =
     bindR (if 268 \<le> version then
              bindR r32 (\<lambda>num.
                repeatR (nat (sint num))
                  (\<lambda>sh. bindR r32 (\<lambda>k. ret (sh(sint k := True)))) (shimmered w))
            else ret (shimmered w)) (\<lambda>sh.
     bindR (loadHomedNPCs env version []) (\<lambda>ns.
     bindR (if 140 \<le> version then loadHomelessNPCs env version ns else ret ns) (\<lambda>ns'.
       ret (w\<lparr>npcs := ns', shimmered := sh\<rparr>))))"

subsection \<open>The smaller sections\<close>

text \<open>\<^verbatim>\<open>World::loadDummies\<close>, lines 262 to 270.\<close>

definition loadDummies :: "World \<Rightarrow> World reader" where
  "loadDummies w =
     bindR r32 (\<lambda>numDummies.
     bindR (repeatR (nat (sint numDummies)) (\<lambda>u. bindR r16 (\<lambda>x. bindR r16 (\<lambda>y. ret u))) ())
       (\<lambda>u. ret w))"

text \<open>
  \<^verbatim>\<open>World::loadEntities\<close>, lines 276 to 307: one record. The \<^verbatim>\<open>switch\<close> has the cases 0, 1
  and 2 and no default.
\<close>

definition loadEntity :: "Entity list \<Rightarrow> Entity list reader" where
  "loadEntity es =
     bindR r8 (\<lambda>type.
       if type = 0 then
         bindR r32 (\<lambda>id. bindR r16 (\<lambda>x. bindR r16 (\<lambda>y. bindR r16 (\<lambda>npc.
           ret (es @ [TrainingDummy (sint id) (sint x) (sint y) (sint npc)])))))
       else if type = 1 then
         bindR r32 (\<lambda>id. bindR r16 (\<lambda>x. bindR r16 (\<lambda>y. bindR r16 (\<lambda>itemid.
         bindR r8 (\<lambda>prefix. bindR r16 (\<lambda>stack.
           ret (es @ [ItemFrame (sint id) (sint x) (sint y) (sint itemid) (uint prefix)
                        (sint stack)])))))))
       else if type = 2 then
         bindR r32 (\<lambda>id. bindR r16 (\<lambda>x. bindR r16 (\<lambda>y. bindR r8 (\<lambda>ty. bindR r8 (\<lambda>on.
           ret (es @ [LogicSensor (sint id) (sint x) (sint y) (uint ty) (on \<noteq> 0)]))))))
       else ret es)"

definition loadEntities :: "World \<Rightarrow> World reader" where
  "loadEntities w =
     bindR r32 (\<lambda>numEntities.
     bindR (repeatR (nat (sint numEntities)) loadEntity []) (\<lambda>es.
       ret (w\<lparr>entities := es\<rparr>)))"

text \<open>\<^verbatim>\<open>World::loadPressurePlates\<close>, lines 311 to 317.\<close>

definition loadPressurePlates :: "World \<Rightarrow> World reader" where
  "loadPressurePlates w =
     bindR r32 (\<lambda>numPlates.
     bindR (repeatR (nat (sint numPlates)) (\<lambda>u. bindR r32 (\<lambda>x. bindR r32 (\<lambda>y. ret u))) ())
       (\<lambda>u. ret w))"

text \<open>\<^verbatim>\<open>World::loadTownManager\<close>, lines 319 to 328.\<close>

definition loadTownManager :: "World \<Rightarrow> World reader" where
  "loadTownManager w =
     bindR r32 (\<lambda>numRooms.
     bindR (repeatR (nat (sint numRooms))
              (\<lambda>u. bindR r32 (\<lambda>npc. bindR r32 (\<lambda>x. bindR r32 (\<lambda>y. ret u)))) ())
       (\<lambda>u. ret w))"

text \<open>\<^verbatim>\<open>World::loadBestiary\<close>, lines 330 to 344.\<close>

definition loadBestiary :: "World \<Rightarrow> World reader" where
  "loadBestiary w =
     bindR r32 (\<lambda>numKills.
     bindR (repeatR (nat (sint numKills))
              (\<lambda>ks. bindR rs (\<lambda>npc. bindR r32 (\<lambda>n. ret (ks(npc \<mapsto> sint n))))) (kills w))
       (\<lambda>ks.
     bindR r32 (\<lambda>numSights.
     bindR (repeatR (nat (sint numSights)) (\<lambda>ss. bindR rs (\<lambda>s. ret (ss @ [s]))) (seenNPCs w))
       (\<lambda>ss.
     bindR r32 (\<lambda>numChat.
     bindR (repeatR (nat (sint numChat)) (\<lambda>cs. bindR rs (\<lambda>s. ret (cs @ [s]))) (chats w))
       (\<lambda>cs.
       ret (w\<lparr>kills := ks, seenNPCs := ss, chats := cs\<rparr>)))))))"

text \<open>\<^verbatim>\<open>World::loadCreativePowers\<close>, lines 346 to 349: nothing is read.\<close>

definition loadCreativePowers :: "World \<Rightarrow> World reader" where
  "loadCreativePowers w = ret w"

subsection \<open>\<^verbatim>\<open>World::loadPlayer1\<close>\<close>

text \<open>Lines 492 to 495 and 498 to 501: one step of \<^verbatim>\<open>while (rle-- > 0)\<close>.\<close>

definition seen_down :: "int \<Rightarrow> bool \<Rightarrow> int \<times> int \<times> (int \<Rightarrow> Tile) \<Rightarrow> int \<times> int \<times> (int \<Rightarrow> Tile)" where
  "seen_down wide s =
     (\<lambda>(y, offset, ts). (y + 1, offset + wide, ts(offset + wide := setSeen s (ts (offset + wide)))))"

text \<open>Lines 482 to 502: the body of the inner loop; it returns \<open>y\<close>, \<open>offset\<close> and the tiles.\<close>

definition loadPlayer1_cell ::
  "int \<Rightarrow> int \<Rightarrow> int \<Rightarrow> int \<Rightarrow> (int \<Rightarrow> Tile) \<Rightarrow> (int \<times> int \<times> (int \<Rightarrow> Tile)) reader" where
  "loadPlayer1_cell wide version y offset ts =
     bindR r8 (\<lambda>present.
       if present \<noteq> 0 then
         bindR (if version \<le> 77 then bindR r8 (\<lambda>tileid. ret ())
                else bindR r16 (\<lambda>tileid. ret ())) (\<lambda>_.
         bindR r8 (\<lambda>light. bindR r8 (\<lambda>misc.
         bindR (if 50 \<le> version then bindR r8 (\<lambda>misc2. ret ()) else ret ()) (\<lambda>_.
         bindR r16 (\<lambda>rle.
           ret ((seen_down wide True ^^ nat (sint rle))
                  (y, offset, ts(offset := setSeen True (ts offset)))))))))
       else
         bindR r16 (\<lambda>rle.
           ret ((seen_down wide False ^^ nat (sint rle)) (y, offset, ts))))"

lemma advancing_loadPlayer1_cell: "advancing (loadPlayer1_cell wide version y offset ts)"
  unfolding loadPlayer1_cell_def by (intro advancing_bindR forward_intros) simp_all

text \<open>Lines 481 to 503: one column, from row \<open>y\<close> at \<open>offset\<close>.\<close>

function loadPlayer1_column ::
  "int \<Rightarrow> int \<Rightarrow> int \<Rightarrow> int \<Rightarrow> int \<Rightarrow> (int \<Rightarrow> Tile) \<Rightarrow> (int \<Rightarrow> Tile) reader" where
  "loadPlayer1_column wide high version y offset ts h =
     (if y < high then
        (case loadPlayer1_cell wide version y offset ts h of
           Inl e \<Rightarrow> Inl e
         | Inr ((y', offset', ts'), h') \<Rightarrow>
             loadPlayer1_column wide high version (y' + 1) (offset' + wide) ts' h')
      else Inr (ts, h))"
  by pat_completeness auto
termination
  by (relation "measure (\<lambda>(wide, high, version, y, offset, ts, h). length (hdata h) - hpos h)")
     (auto intro: advancing_less [OF advancing_loadPlayer1_cell])

declare loadPlayer1_column.simps [simp del]

definition loadPlayer1 :: "int \<Rightarrow> World \<Rightarrow> World reader" where
  "loadPlayer1 version w =
     bindR rs (\<lambda>name. bindR r32 (\<lambda>id. bindR r32 (\<lambda>high. bindR r32 (\<lambda>wide.
     bindR (repeatR (nat (tilesWide w))
              (\<lambda>(x, ts). bindR (loadPlayer1_column (tilesWide w) (tilesHigh w) version 0 x ts)
                            (\<lambda>ts'. ret (x + 1, ts')))
              (0, tiles w)) (\<lambda>(x, ts).
       ret (w\<lparr>tiles := ts\<rparr>))))))"

subsection \<open>\<^verbatim>\<open>World::loadPlayer2\<close>\<close>

definition relogic :: "byte list" where
  "relogic = map of_char ''relogic''"

text \<open>Lines 615 to 618, 620 to 624 and 628 to 631: one step of \<^verbatim>\<open>while (rle-- > 0)\<close>.\<close>

definition seen_right :: "bool \<Rightarrow> int \<times> int \<times> (int \<Rightarrow> Tile) \<Rightarrow> int \<times> int \<times> (int \<Rightarrow> Tile)" where
  "seen_right s =
     (\<lambda>(x, offset, ts). (x + 1, offset + 1, ts(offset + 1 := setSeen s (ts (offset + 1)))))"

text \<open>Lines 595 to 632: the body of the inner loop; it returns \<open>x\<close>, \<open>offset\<close> and the tiles.\<close>

definition loadPlayer2_cell ::
  "int \<Rightarrow> int \<Rightarrow> (int \<Rightarrow> Tile) \<Rightarrow> (int \<times> int \<times> (int \<Rightarrow> Tile)) reader" where
  "loadPlayer2_cell x offset ts =
     bindR r8 (\<lambda>flags.
     bindR (if flags AND 1 \<noteq> 0 then bindR r8 (\<lambda>color. ret ()) else ret ()) (\<lambda>_.
     let tile = drop_bit 1 flags AND 7 in
     bindR (if tile = 1 \<or> tile = 2 \<or> tile = 7 then
              (if flags AND 16 \<noteq> 0 then bindR r16 (\<lambda>tileid. ret ())
               else bindR r8 (\<lambda>tileid. ret ()))
            else ret ()) (\<lambda>_.
     bindR (if flags AND 32 \<noteq> 0 then r8 else ret 255) (\<lambda>light.
     bindR (if drop_bit 6 flags AND 3 = 1 then bindR r8 (\<lambda>b. ret (uint b))
            else if drop_bit 6 flags AND 3 = 2 then bindR r16 (\<lambda>w. ret (sint w))
            else ret 0) (\<lambda>rle.
       if tile \<noteq> 0 then
         (if light = 255 then
            ret ((seen_right True ^^ nat rle) (x, offset, ts(offset := setSeen True (ts offset))))
          else
            repeatR (nat rle) (\<lambda>s. bindR r8 (\<lambda>l. ret (seen_right True s)))
              (x, offset, ts(offset := setSeen True (ts offset))))
       else
         ret ((seen_right False ^^ nat rle)
                (x, offset, ts(offset := setSeen False (ts offset)))))))))"

lemma advancing_loadPlayer2_cell: "advancing (loadPlayer2_cell x offset ts)"
  unfolding loadPlayer2_cell_def by (intro advancing_bindR forward_intros) simp_all

text \<open>Lines 594 to 633: one row, from column \<open>x\<close> at \<open>offset\<close>; the offset runs on.\<close>

function loadPlayer2_row ::
  "int \<Rightarrow> int \<Rightarrow> int \<Rightarrow> (int \<Rightarrow> Tile) \<Rightarrow> (int \<times> (int \<Rightarrow> Tile)) reader" where
  "loadPlayer2_row wide x offset ts h =
     (if x < wide then
        (case loadPlayer2_cell x offset ts h of
           Inl e \<Rightarrow> Inl e
         | Inr ((x', offset', ts'), h') \<Rightarrow> loadPlayer2_row wide (x' + 1) (offset' + 1) ts' h')
      else Inr ((offset, ts), h))"
  by pat_completeness auto
termination
  by (relation "measure (\<lambda>(wide, x, offset, ts, h). length (hdata h) - hpos h)")
     (auto intro: advancing_less [OF advancing_loadPlayer2_cell])

declare loadPlayer2_row.simps [simp del]

text \<open>Lines 560 to 567: the metadata byte of every id whose bit is set is thrown away.\<close>

definition skipPresent :: "int \<Rightarrow> bool list \<Rightarrow> unit reader" where
  "skipPresent num present =
     bindR (repeatR (nat num)
              (\<lambda>i. bindR (if present ! i then bindR r8 (\<lambda>b. ret ()) else ret ())
                      (\<lambda>_. ret (Suc i))) 0) (\<lambda>_. ret ())"

text \<open>
  Lines 569 to 590: the rest of the file is inflated and a new \<^verbatim>\<open>Handle\<close> on the output
  replaces the old one.
\<close>

definition inflateRest :: "Env \<Rightarrow> unit reader" where
  "inflateRest env h =
     (case readBytes (length (hdata h) - hpos h) h of
        Inl e \<Rightarrow> Inl e
      | Inr (rest, h') \<Rightarrow> Inr ((), \<lparr>hdata = inflate env rest, hpos = 0\<rparr>))"

text \<open>Lines 522 to 634.\<close>

definition loadPlayer2_body :: "Env \<Rightarrow> int \<Rightarrow> World \<Rightarrow> World reader" where
  "loadPlayer2_body env version w =
     bindR rs (\<lambda>name. bindR r32 (\<lambda>worldid. bindR r32 (\<lambda>high. bindR r32 (\<lambda>wide.
     bindR r16 (\<lambda>numTiles. bindR r16 (\<lambda>numWalls.
     bindR r16 (\<lambda>unk1. bindR r16 (\<lambda>unk2. bindR r16 (\<lambda>unk3. bindR r16 (\<lambda>unk4.
     bindR (readBitmap (sint numTiles)) (\<lambda>tilePresent.
     bindR (readBitmap (sint numWalls)) (\<lambda>wallPresent.
     bindR (skipPresent (sint numTiles) tilePresent) (\<lambda>_.
     bindR (skipPresent (sint numWalls) wallPresent) (\<lambda>_.
     bindR (if 93 \<le> version then inflateRest env else ret ()) (\<lambda>_.
     bindR (repeatR (nat (tilesHigh w))
              (\<lambda>(offset, ts). loadPlayer2_row (tilesWide w) 0 offset ts) (0, tiles w))
       (\<lambda>(offset, ts).
       ret (w\<lparr>tiles := ts\<rparr>)))))))))))))))))"

text \<open>Lines 507 to 520, then the body.\<close>

definition loadPlayer2 :: "Env \<Rightarrow> int \<Rightarrow> World \<Rightarrow> World reader" where
  "loadPlayer2 env version w =
     (if 135 \<le> version then
        bindR (readBytes 7) (\<lambda>magic.
          if magic \<noteq> relogic then ret (emit (LoadError ''Not a relogic map file'') w)
          else
            bindR r8 (\<lambda>type.
              if type \<noteq> 1 then ret (emit (LoadError ''Not a player map file'') w)
              else bindR (skip 12) (\<lambda>_. loadPlayer2_body env version w)))
      else loadPlayer2_body env version w)"

subsection \<open>\<^verbatim>\<open>World::loadPlayer\<close>\<close>

text \<open>\<^verbatim>\<open>QString::number\<close> and \<^verbatim>\<open>QString::arg\<close> of an \<^verbatim>\<open>int\<close>: decimal.\<close>

fun decimal :: "nat \<Rightarrow> string" where
  "decimal n = (if n < 10 then [''0123456789'' ! n]
                else decimal (n div 10) @ [''0123456789'' ! (n mod 10)])"

declare decimal.simps [simp del]

definition number :: "int \<Rightarrow> string" where
  "number i = (if i < 0 then CHR ''-'' # decimal (nat (- i)) else decimal (nat i))"

text \<open>\<^verbatim>\<open>arg(u, width, 16, QChar('0'))\<close> for a \<open>u\<close> below \<open>16 ^ width\<close>.\<close>

fun hex :: "nat \<Rightarrow> nat \<Rightarrow> string" where
  "hex 0 n = []"
| "hex (Suc width) n = hex width (n div 16) @ [''0123456789abcdef'' ! (n mod 16)]"

text \<open>\<^verbatim>\<open>player.left(player.lastIndexOf("."))\<close>; without a dot, the whole string.\<close>

definition left_of_last_dot :: "string \<Rightarrow> string" where
  "left_of_last_dot p =
     (if CHR ''.'' \<in> set p then rev (tl (dropWhile (\<lambda>c. c \<noteq> CHR ''.'') (rev p))) else p)"

text \<open>Lines 423 to 447: the file name made of the 16 bytes of the GUID.\<close>

definition guid_name :: "byte list \<Rightarrow> string" where
  "guid_name g =
     (let u1 = (ucast (g ! 0) OR push_bit 8 (ucast (g ! 1)) OR push_bit 16 (ucast (g ! 2))
                OR push_bit 24 (ucast (g ! 3)) :: 32 word);
          u2 = (ucast (g ! 4) OR push_bit 8 (ucast (g ! 5)) :: 16 word);
          u3 = (ucast (g ! 6) OR push_bit 8 (ucast (g ! 7)) :: 16 word);
          u4 = (push_bit 8 (ucast (g ! 8)) OR ucast (g ! 9) :: 16 word);
          u5 = (push_bit 8 (ucast (g ! 10)) OR ucast (g ! 11) :: 16 word);
          u6 = (push_bit 24 (ucast (g ! 12)) OR push_bit 16 (ucast (g ! 13))
                OR push_bit 8 (ucast (g ! 14)) OR ucast (g ! 15) :: 32 word)
      in ''/'' @ hex 8 (unat u1) @ ''-'' @ hex 4 (unat u2) @ ''-'' @ hex 4 (unat u3) @ ''-''
         @ hex 4 (unat u4) @ ''-'' @ hex 4 (unat u5) @ hex 8 (unat u6) @ ''.map'')"

text \<open>Lines 420 to 448: the path tried first.\<close>

definition guid_path :: "Env \<Rightarrow> World \<Rightarrow> string" where
  "guid_path env w =
     (case hd_guid (header w) of
        None \<Rightarrow> left_of_last_dot (player w)
      | Some g \<Rightarrow> left_of_last_dot (player w) @ toNativeSeparators env (guid_name g))"

text \<open>Lines 451 to 453: the path made of the world id.\<close>

definition worldID_path :: "Env \<Rightarrow> World \<Rightarrow> string" where
  "worldID_path env w =
     left_of_last_dot (player w)
       @ toNativeSeparators env (''/'' @ number (hd_worldID (header w)) @ ''.map'')"

definition map_path :: "Env \<Rightarrow> World \<Rightarrow> string" where
  "map_path env w =
     (if hd_guid (header w) = None \<or> \<not> dir_exists env (guid_path env w)
      then worldID_path env w else guid_path env w)"

text \<open>Lines 457 to 462: every cell of the array, row by row.\<close>

definition seen_next :: "int \<times> (int \<Rightarrow> Tile) \<Rightarrow> int \<times> (int \<Rightarrow> Tile)" where
  "seen_next = (\<lambda>(offset, ts). (offset + 1, ts(offset := setSeen True (ts offset))))"

definition seen_all :: "int \<Rightarrow> int \<Rightarrow> (int \<Rightarrow> Tile) \<Rightarrow> int \<times> (int \<Rightarrow> Tile)" where
  "seen_all wide high ts = ((seen_next ^^ nat wide) ^^ nat high) (0, ts)"

text \<open>
  Lines 416 to 472. A GUID shorter than the 16 bytes that \<^verbatim>\<open>g->at(15)\<close> needs is
  \<open>IndexOutOfRange\<close>.
\<close>

definition loadPlayer :: "Env \<Rightarrow> World \<Rightarrow> load_error + World" where
  "loadPlayer env w =
     (if (case hd_guid (header w) of None \<Rightarrow> False | Some g \<Rightarrow> length g < 16)
      then Inl IndexOutOfRange
      else if \<not> dir_exists env (map_path env w)
      then Inr (w\<lparr>tiles := snd (seen_all (tilesWide w) (tilesHigh w) (tiles w))\<rparr>)
      else
        (case bindR r32 (\<lambda>v. if sint v \<le> 91 then loadPlayer1 (sint v) w
                               else loadPlayer2 env (sint v) w)
                \<lparr>hdata = file_bytes env (map_path env w), hpos = 0\<rparr> of
           Inl e \<Rightarrow> Inl e
         | Inr (w', h') \<Rightarrow> Inr w'))"

subsection \<open>\<^verbatim>\<open>World::run\<close>\<close>

text \<open>\<^verbatim>\<open>sections[k]\<close>; outside the list it is \<open>IndexOutOfRange\<close>.\<close>

definition seek_section :: "int list \<Rightarrow> nat \<Rightarrow> unit reader" where
  "seek_section sections k =
     (if k < length sections then seek (sections ! k) else fail IndexOutOfRange)"

text \<open>Lines 93 to 131: the sections, the player map, and the \<^verbatim>\<open>loaded\<close> signal.\<close>

definition run_sections :: "Env \<Rightarrow> int \<Rightarrow> int list \<Rightarrow> bool list \<Rightarrow> World \<Rightarrow> World reader" where
  "run_sections env version sections extra w =
     bindR (seek_section sections 0) (\<lambda>_. bindR (loadHeader env version w) (\<lambda>w1.
     bindR (seek_section sections 1) (\<lambda>_. bindR (loadTiles extra w1) (\<lambda>w2.
     bindR (seek_section sections 2) (\<lambda>_. bindR (loadChests env w2) (\<lambda>w3.
     bindR (seek_section sections 3) (\<lambda>_. bindR (loadSigns w3) (\<lambda>w4.
     bindR (seek_section sections 4) (\<lambda>_. bindR (loadNPCs env version w4) (\<lambda>w5.
     bindR (seek_section sections 5) (\<lambda>_.
     bindR (if 116 \<le> version
            then (if version < 122 then loadDummies w5 else loadEntities w5)
            else ret w5) (\<lambda>w6.
     bindR (if 170 \<le> version
            then bindR (seek_section sections 6) (\<lambda>_. loadPressurePlates w6)
            else ret w6) (\<lambda>w7.
     bindR (if 189 \<le> version
            then bindR (seek_section sections 7) (\<lambda>_. loadTownManager w7)
            else ret w7) (\<lambda>w8.
     bindR (if 210 \<le> version
            then bindR (seek_section sections 8) (\<lambda>_. loadBestiary w8)
            else ret w8) (\<lambda>w9.
     bindR (if 220 \<le> version
            then bindR (seek_section sections 9) (\<lambda>_. loadCreativePowers w9)
            else ret w9) (\<lambda>w10.
     bindR (if player w10 \<noteq> []
            then (\<lambda>h. case loadPlayer env w10 of Inl e \<Rightarrow> Inl e | Inr w' \<Rightarrow> Inr (w', h))
            else ret w10) (\<lambda>w11.
       ret (emit (Loaded True) w11))))))))))))))))))"

text \<open>Lines 62 to 91: magic, file type, section table and the extra-data bitmap.\<close>

definition run_prologue :: "Env \<Rightarrow> int \<Rightarrow> World \<Rightarrow> World reader" where
  "run_prologue env version w =
     bindR r16 (\<lambda>numSections.
     bindR (repeatR (nat (sint numSections)) (\<lambda>ss. bindR r32 (\<lambda>s. ret (ss @ [sint s]))) [])
       (\<lambda>sections.
     bindR r16 (\<lambda>numTiles.
     bindR (readBitmap (sint numTiles)) (\<lambda>extra.
       run_sections env version sections extra w))))"

text \<open>
  Lines 49 to 132. The result is the world, with the signals emitted, and the handle of
  the world file where the decoder left it.
\<close>

definition run_handle :: "Env \<Rightarrow> World \<Rightarrow> World reader" where
  "run_handle env w =
     bindR r32 (\<lambda>v.
       let version = sint v in
       if HighestVersion env < version then
         ret (emit (LoadError (''Unsupported map version: '' @ number version)) w)
       else if version < MinimumVersion env then
         ret (emit (LoadError ''We no longer support maps this old'') w)
       else if 135 \<le> version then
         bindR (readBytes 7) (\<lambda>magic.
           if magic \<noteq> relogic then ret (emit (LoadError ''Not a relogic map file'') w)
           else
             bindR r8 (\<lambda>type.
               if type \<noteq> 2 then ret (emit (LoadError ''Not a map file'') w)
               else bindR (skip (4 + 8)) (\<lambda>_. run_prologue env version w)))
       else run_prologue env version w)"

definition run :: "Env \<Rightarrow> World \<Rightarrow> load_error + World \<times> Handle" where
  "run env w = run_handle env w \<lparr>hdata = file_bytes env (filename w), hpos = 0\<rparr>"

section \<open>An example environment\<close>

text \<open>An environment and a world to run the decoder on.\<close>

definition demo_env :: "bool \<Rightarrow> byte list \<Rightarrow> Env" where
  "demo_env present file =
     \<lparr>HighestVersion = 279, MinimumVersion = 88,
      header_load = (\<lambda>version. ret \<lparr>hd_tilesWide = 2, hd_tilesHigh = 2, hd_worldID = 42,
                                      hd_guid = None\<rparr>),
      info_items = (\<lambda>i. if i = 1 then map of_char ''Iron Pickaxe'' else []),
      info_prefixes = (\<lambda>i. if i = 1 then map of_char ''Large'' else []),
      npcsById = (\<lambda>i. None), npcsByName = (\<lambda>s. None),
      new_Tile = blank_tile,
      new_NPC = \<lparr>n_title = [], n_name = [], n_x = 0, n_y = 0, n_homeless = False,
                 n_homeX = 0, n_homeY = 0, n_sprite = 0, n_head = 0, n_townVariation = 0\<rparr>,
      dir_exists = (\<lambda>p. present), file_bytes = (\<lambda>p. file),
      inflate = (\<lambda>bs. bs), toNativeSeparators = (\<lambda>p. p)\<rparr>"

definition demo_world :: World where
  "demo_world =
     \<lparr>filename = ''w.wld'', player = ''p.plr'', tilesWide = 2, tilesHigh = 2,
      tiles = (\<lambda>offset. blank_tile),
      header = \<lparr>hd_tilesWide = 2, hd_tilesHigh = 2, hd_worldID = 42, hd_guid = None\<rparr>,
      chests = [], signs = [], npcs = [], shimmered = (\<lambda>i. False), entities = [],
      kills = (\<lambda>s. None), seenNPCs = [], chats = [], events = []\<rparr>"

text \<open>A player map of version 80 for the example world: the first column seen, the
  second left as it is but for its last cell, which is cleared.\<close>

definition v1_map :: "byte list" where
  "v1_map = [80, 0, 0, 0,  0,  42, 0, 0, 0,  2, 0, 0, 0,  2, 0, 0, 0,
             1, 9, 0, 255, 0, 0, 1, 0,
             0, 1, 0]"

text \<open>The example world with water in every cell.\<close>

definition wet_world :: World where
  "wet_world = demo_world\<lparr>tiles := (\<lambda>offset. blank_tile\<lparr>t_liquid := 9\<rparr>)\<rparr>"

text \<open>The head of a chest record: \<open>x = 7\<close>, \<open>y = 9\<close> and an empty name.\<close>

definition chest_bytes :: "byte list" where
  "chest_bytes = [7, 0, 0, 0,  9, 0, 0, 0,  0]"

text \<open>
  A world file of version 100 for the example environment: six section offsets, a bitmap
  of one bit, two columns of two tiles, no chests, no signs and no NPCs.
\<close>

definition small_file :: "byte list" where
  "small_file =
     [100, 0, 0, 0,  6, 0,
      33, 0, 0, 0,  33, 0, 0, 0,  37, 0, 0, 0,  41, 0, 0, 0,  43, 0, 0, 0,  44, 0, 0, 0,
      1, 0,  0,
      0x40, 1, 0x40, 1,
      0, 0, 0, 0,
      0, 0,
      0]"

section \<open>Notions the properties are stated with\<close>

text \<open>
  The reading of a bitmap that the specification words as ``MSB-first within each byte'':
  bit \<open>i\<close> of the vector is taken from byte \<open>i div 8\<close> with the mask \<open>0x80\<close> for the first
  bit of the byte and the next lower bit for each following one.
\<close>

definition msb_first :: "byte list \<Rightarrow> nat \<Rightarrow> bool" where
  "msb_first bytes i = (bytes ! (i div 8) AND drop_bit (i mod 8) 0x80 \<noteq> 0)"

text \<open>A tile with its seen bit masked out: all fields, and all flag bits but \<open>0x200\<close>.\<close>

definition unseen :: "Tile \<Rightarrow> Tile" where
  "unseen t = t\<lparr>t_flags := t_flags t AND NOT 0x200\<rparr>"

text \<open>A reader that never fails with the error \<open>e\<close>.\<close>

definition never :: "load_error \<Rightarrow> 'a reader \<Rightarrow> bool" where
  "never e m = (\<forall>h. m h \<noteq> Inl e)"

text \<open>Two tile stores that differ in seen bits only.\<close>

definition frame :: "(int \<Rightarrow> Tile) \<Rightarrow> (int \<Rightarrow> Tile) \<Rightarrow> bool" where
  "frame ts ts' = (\<forall>offset. unseen (ts' offset) = unseen (ts offset))"

definition frame3 :: "(int \<Rightarrow> Tile) \<Rightarrow> int \<times> int \<times> (int \<Rightarrow> Tile) \<Rightarrow> bool" where
  "frame3 ts0 = (\<lambda>(a, b, ts). frame ts0 ts)"

text \<open>
  The item slots of a chest as the specification describes them: a 16-bit stack, and for
  a stack greater than 0 a 32-bit item id and a prefix byte; their bytes in the file, and
  the item a filled slot stands for.
\<close>

definition enc16 :: "16 word \<Rightarrow> byte list" where
  "enc16 w = [ucast w, ucast (drop_bit 8 w)]"

definition enc32 :: "32 word \<Rightarrow> byte list" where
  "enc32 w = [ucast w, ucast (drop_bit 8 w), ucast (drop_bit 16 w), ucast (drop_bit 24 w)]"

type_synonym slot = "16 word \<times> 32 word \<times> byte"

definition enc_slot :: "slot \<Rightarrow> byte list" where
  "enc_slot = (\<lambda>(stack, itemid, prefixid).
     enc16 stack @ (if 0 < sint stack then enc32 itemid @ [prefixid] else []))"

definition filled :: "slot \<Rightarrow> bool" where
  "filled = (\<lambda>(stack, itemid, prefixid). 0 < sint stack)"

definition slot_item :: "Env \<Rightarrow> slot \<Rightarrow> Item" where
  "slot_item env = (\<lambda>(stack, itemid, prefixid).
     \<lparr>i_stack = sint stack, i_name = info_items env (sint itemid),
      i_prefix = info_prefixes env (uint prefixid)\<rparr>)"

text \<open>The bytes a reader has consumed between two states of the handle.\<close>

definition consumed :: "Handle \<Rightarrow> Handle \<Rightarrow> byte list" where
  "consumed h h' = take (hpos h' - hpos h) (drop (hpos h) (hdata h))"

text \<open>
  The tiles decoder with the bounds check that the specification asks for: it is
  \<open>loadColumn\<close>, \<open>loadColumns\<close> and \<open>loadTiles\<close> with one test added, which makes a run
  that is negative or that would push \<open>y\<close> beyond \<open>tilesHigh\<close> a \<open>CorruptTileStream\<close>.
\<close>

function loadColumn_checked ::
  "int \<Rightarrow> int \<Rightarrow> bool list \<Rightarrow> int \<Rightarrow> int \<Rightarrow> (int \<Rightarrow> Tile) \<Rightarrow> (int \<Rightarrow> Tile) reader" where
  "loadColumn_checked wide high extra y offset ts h =
     (if y < high then
        (case Tile_load extra (ts offset) h of
           Inl e \<Rightarrow> Inl e
         | Inr ((rle, t), h') \<Rightarrow>
             if rle < 0 \<or> high \<le> y + rle then Inl CorruptTileStream
             else
               (case copy_run rle wide offset (ts(offset := t)) of
                  (destOffset, ts') \<Rightarrow>
                    loadColumn_checked wide high extra (y + rle + 1) destOffset ts' h'))
      else Inr (ts, h))"
  by pat_completeness auto
termination
  by (relation "measure (\<lambda>(wide, high, extra, y, offset, ts, h). length (hdata h) - hpos h)")
     (auto intro: Tile_load_less)

declare loadColumn_checked.simps [simp del]

function loadColumns_checked ::
  "int \<Rightarrow> int \<Rightarrow> bool list \<Rightarrow> int \<Rightarrow> (int \<Rightarrow> Tile) \<Rightarrow> (int \<Rightarrow> Tile) reader" where
  "loadColumns_checked wide high extra x ts h =
     (if x < wide then
        (case loadColumn_checked wide high extra 0 x ts h of
           Inl e \<Rightarrow> Inl e
         | Inr (ts', h') \<Rightarrow> loadColumns_checked wide high extra (x + 1) ts' h')
      else Inr (ts, h))"
  by pat_completeness auto
termination
  by (relation "measure (\<lambda>(wide, high, extra, x, ts, h). nat (wide - x))") auto

declare loadColumns_checked.simps [simp del]

definition loadTiles_checked :: "bool list \<Rightarrow> World \<Rightarrow> World reader" where
  "loadTiles_checked extra w =
     bindR (loadColumns_checked (tilesWide w) (tilesHigh w) extra 0 (tiles w))
       (\<lambda>ts. ret (w\<lparr>tiles := ts\<rparr>))"

text \<open>Two stores that agree outside the array.\<close>

definition outside :: "int \<Rightarrow> (int \<Rightarrow> Tile) \<Rightarrow> (int \<Rightarrow> Tile) \<Rightarrow> bool" where
  "outside bound ts ts' = (\<forall>offset. bound \<le> offset \<longrightarrow> ts' offset = ts offset)"

section \<open>Evaluation on numerals\<close>

lemma repeatR_numeral [simp]:
  "repeatR (numeral k) body s = bindR (body s) (repeatR (pred_numeral k) body)"
  by (simp add: numeral_eq_Suc)

lemma funpow_numeral_eval:
  "(f ^^ numeral k) x = f ((f ^^ pred_numeral k) x)"
  by (simp add: numeral_eq_Suc)

lemma readBits_numeral [simp]:
  "readBits (numeral k) msk cur acc h =
     (if msk = 0x80 then
        (case r8 h of
           Inl e \<Rightarrow> Inl e
         | Inr (b, h') \<Rightarrow> readBits (pred_numeral k) 1 b (acc @ [b AND 1 \<noteq> 0]) h')
      else readBits (pred_numeral k) (push_bit 1 msk) cur
             (acc @ [cur AND push_bit 1 msk \<noteq> 0]) h)"
  by (simp add: numeral_eq_Suc)

lemmas reader_unfold = bindR_def ret_def fail_def r8_def r16_def r32_def skip_def readBytes_def

lemma rs_length_numeral [simp]:
  "rs_length (numeral k) shift acc h =
     (case r8 h of
        Inl e \<Rightarrow> Inl e
      | Inr (b, h') \<Rightarrow>
          (let acc' = acc + unat (b AND 0x7F) * 2 ^ shift
           in if b AND 0x80 \<noteq> 0 then rs_length (pred_numeral k) (shift + 7) acc' h'
              else if acc' < 2 ^ 31 then Inr (acc', h') else Inl InvalidLength))"
  by (simp add: numeral_eq_Suc)

lemmas player_unfold =
  loadPlayer_def loadPlayer1_def loadPlayer1_cell_def map_path_def guid_path_def
  worldID_path_def seen_down_def seen_def setSeen_def blank_tile_def rs_def
  demo_env_def demo_world_def funpow_numeral_eval loadPlayer1_column.simps

lemmas Tile_load_unfold =
  Tile_load_def Tile_fields_def Tile_rle_def load_flags_def load_active_def load_wall_def
  load_liquid_def load_wires_def bindR_def ret_def fail_def r8_def r16_def blank_tile_def
  set_if_def

lemmas tiles_unfold =
  loadTiles_def loadColumns.simps loadColumn.simps copy_run_def copy_cell_def
  funpow_numeral_eval Tile_load_unfold

lemmas tiles_checked_unfold =
  loadTiles_checked_def loadColumns_checked.simps loadColumn_checked.simps copy_run_def
  copy_cell_def funpow_numeral_eval Tile_load_unfold

section \<open>The tile codec\<close>

lemma set_if_and:
  "(set_if c m fl AND k = 0) = (fl AND k = 0 \<and> (c \<longrightarrow> m AND k = 0))"
  by (simp add: set_if_def bit.conj_disj_distrib2 or_eq_0_iff)

lemma load_flags_first:
  "load_flags h = Inr ((f1, f2, f3), h') \<Longrightarrow> f1 = hdata h ! hpos h"
  by (auto simp: load_flags_def r8_def elim!: bindR_InrE split: if_splits)

lemma load_active_res:
  "load_active extra f1 f3 t h = Inr (t', h') \<Longrightarrow>
     t_flags t' = t_flags t \<and> t_liquid t' = t_liquid t \<and> (f1 AND 2 = 0 \<longrightarrow> t_type t' = 0)"
  by (auto simp: load_active_def elim!: bindR_InrE split: if_splits)

lemma load_wall_res:
  "load_wall f1 f3 t h = Inr (t', h') \<Longrightarrow>
     t_flags t' = t_flags t \<and> t_type t' = t_type t \<and> t_liquid t' = t_liquid t"
  by (auto simp: load_wall_def elim!: bindR_InrE split: if_splits)

lemma load_liquid_res:
  "load_liquid f1 f3 t h = Inr (t', h') \<Longrightarrow>
     t_type t' = t_type t \<and>
     active t' = active t \<and>
     lava t' = (lava t \<or> f1 AND 0x18 = 0x10) \<and>
     honey t' = (honey t \<or> f1 AND 0x18 = 0x18) \<and>
     (f1 AND 0x18 = 0 \<longrightarrow> t_liquid t' = 0)"
  by (auto simp: load_liquid_def active_def lava_def honey_def set_if_and
           elim!: bindR_InrE split: if_splits)

lemma load_wires_res:
  "load_wires f2 f3 t h = Inr (t', h') \<Longrightarrow>
     t_type t' = t_type t \<and> t_liquid t' = t_liquid t \<and>
     active t' = active t \<and> lava t' = lava t \<and> honey t' = honey t"
  by (auto simp: load_wires_def Let_def active_def lava_def honey_def set_if_and
           elim!: bindR_InrE split: if_splits)

text \<open>
  What a successful decode of the fields fixes: the returned flag byte is the first byte
  read, and the active, lava and honey flags are functions of that byte alone.
\<close>

lemma Tile_fields_res:
  assumes "Tile_fields extra t h = Inr ((f1, t'), h')"
  shows "f1 = hdata h ! hpos h"
    and "active t' = (f1 AND 2 \<noteq> 0)"
    and "lava t' = (f1 AND 0x18 = 0x10)"
    and "honey t' = (f1 AND 0x18 = 0x18)"
    and "f1 AND 2 = 0 \<Longrightarrow> t_type t' = 0"
    and "f1 AND 0x18 = 0 \<Longrightarrow> t_liquid t' = 0"
proof -
  from assms obtain f2 f3 h1 t1 h2 t2 h3 t3 h4 where
    fl: "load_flags h = Inr ((f1, f2, f3), h1)" and
    ac: "load_active extra f1 f3 (t\<lparr>t_flags := (if f1 AND 2 \<noteq> 0 then 1 else 0)\<rparr>) h1
           = Inr (t1, h2)" and
    wa: "load_wall f1 f3 t1 h2 = Inr (t2, h3)" and
    li: "load_liquid f1 f3 t2 h3 = Inr (t3, h4)" and
    wi: "load_wires f2 f3 t3 h4 = Inr (t', h')"
    by (auto simp: Tile_fields_def elim!: bindR_InrE)
  note a = load_active_res [OF ac] and w = load_wall_res [OF wa]
    and l = load_liquid_res [OF li] and r = load_wires_res [OF wi]
  show "f1 = hdata h ! hpos h" using fl by (rule load_flags_first)
  have fl1: "t_flags t2 = (if f1 AND 2 \<noteq> 0 then 1 else 0)" using a w by simp
  show "active t' = (f1 AND 2 \<noteq> 0)"
    using r l fl1 by (simp add: active_def)
  show "lava t' = (f1 AND 0x18 = 0x10)"
    using r l fl1 by (simp add: lava_def)
  show "honey t' = (f1 AND 0x18 = 0x18)"
    using r l fl1 by (simp add: honey_def)
  show "t_type t' = 0" if "f1 AND 2 = 0" using that r l w a by simp
  show "t_liquid t' = 0" if "f1 AND 0x18 = 0" using that r l by simp
qed

lemma Tile_load_fields:
  assumes "Tile_load extra t h = Inr ((rle, t'), h')"
  obtains f1 h1 where "Tile_fields extra t h = Inr ((f1, t'), h1)"
    and "Tile_rle f1 h1 = Inr (rle, h')"
  using assms by (auto simp: Tile_load_def elim!: bindR_InrE)

text \<open>
  C3, as the claim states it, fails: a record whose first flag byte has the active bit and
  whose type byte is 0 decodes to an active tile of type 0.
\<close>

theorem active_tile_of_type_zero:
  "Tile_load [False] blank_tile \<lparr>hdata = [2, 0], hpos = 0\<rparr>
     = Inr ((0, blank_tile\<lparr>t_flags := 1, t_u := - 1, t_v := - 1\<rparr>),
            \<lparr>hdata = [2, 0], hpos = 2\<rparr>)
   \<and> active (blank_tile\<lparr>t_flags := 1, t_u := - 1, t_v := - 1\<rparr>)
   \<and> t_type (blank_tile\<lparr>t_flags := 1, t_u := - 1, t_v := - 1\<rparr>) = 0"
  by (simp add: Tile_load_unfold active_def)

text \<open>
  C3, amended: for every tile the codec produces, the active flag is set if and only if
  bit \<open>0x02\<close> of the first flag byte is set, and a tile whose type field is nonzero has
  the active flag set (an inactive tile has type 0). An active tile may have type 0.
\<close>

theorem tile_type_nonzero_is_active:
  assumes "Tile_load extra t h = Inr ((rle, t'), h')"
  shows "(active t' \<longleftrightarrow> hdata h ! hpos h AND 2 \<noteq> 0) \<and> (t_type t' \<noteq> 0 \<longrightarrow> active t')"
proof -
  from assms obtain f1 h1 where f: "Tile_fields extra t h = Inr ((f1, t'), h1)"
    by (rule Tile_load_fields)
  note r = Tile_fields_res [OF f]
  show ?thesis using r(1,2,5) by auto
qed

theorem tile_type_nonzero_is_active_witness:
  "Tile_load [False, False, False] blank_tile \<lparr>hdata = [2, 2], hpos = 0\<rparr>
     = Inr ((0, blank_tile\<lparr>t_flags := 1, t_type := 2, t_u := - 1, t_v := - 1\<rparr>),
            \<lparr>hdata = [2, 2], hpos = 2\<rparr>)
   \<and> t_type (blank_tile\<lparr>t_flags := 1, t_type := 2, t_u := - 1, t_v := - 1\<rparr>) \<noteq> 0
   \<and> active (blank_tile\<lparr>t_flags := 1, t_type := 2, t_u := - 1, t_v := - 1\<rparr>)"
proof -
  have h: "Tile_load [False, False, False] blank_tile \<lparr>hdata = [2, 2], hpos = 0\<rparr>
     = Inr ((0, blank_tile\<lparr>t_flags := 1, t_type := 2, t_u := - 1, t_v := - 1\<rparr>),
            \<lparr>hdata = [2, 2], hpos = 2\<rparr>)"
    by (simp add: Tile_load_unfold)
  have n: "t_type (blank_tile\<lparr>t_flags := 1, t_type := 2, t_u := - 1, t_v := - 1\<rparr>) \<noteq> 0"
    by simp
  from tile_type_nonzero_is_active [OF h] n h show ?thesis by blast
qed

text \<open>
  C6, as the claim states it, fails in its second half: a record with the lava bits and a
  liquid byte of 0 decodes to a tile with \<open>liquid = 0\<close> and the lava flag set.
\<close>

theorem lava_tile_of_liquid_zero:
  "Tile_load [] blank_tile \<lparr>hdata = [0x10, 0], hpos = 0\<rparr>
     = Inr ((0, blank_tile\<lparr>t_flags := 2\<rparr>), \<lparr>hdata = [0x10, 0], hpos = 2\<rparr>)
   \<and> t_liquid (blank_tile\<lparr>t_flags := 2\<rparr>) = 0
   \<and> lava (blank_tile\<lparr>t_flags := 2\<rparr>)"
  by (simp add: Tile_load_unfold lava_def)

text \<open>
  C6, amended: for every tile the codec produces, the lava and honey flags are never both
  set, and whenever the first flag byte has neither liquid bit (\<open>f1 AND 0x18 = 0\<close>) the
  liquid field is 0 and both flags are clear. A liquid byte of 0 under a liquid bit does
  not clear the flags.
\<close>

theorem tile_lava_honey_exclusive:
  assumes "Tile_load extra t h = Inr ((rle, t'), h')"
  shows "\<not> (lava t' \<and> honey t') \<and>
         (hdata h ! hpos h AND 0x18 = 0 \<longrightarrow> t_liquid t' = 0 \<and> \<not> lava t' \<and> \<not> honey t')"
proof -
  from assms obtain f1 h1 where f: "Tile_fields extra t h = Inr ((f1, t'), h1)"
    by (rule Tile_load_fields)
  note r = Tile_fields_res [OF f]
  show ?thesis using r(1,3,4,6) by auto
qed

theorem tile_lava_honey_exclusive_witness:
  "Tile_load [] (blank_tile\<lparr>t_liquid := 9\<rparr>) \<lparr>hdata = [4, 7], hpos = 0\<rparr>
     = Inr ((0, blank_tile\<lparr>t_wall := 7, t_wallu := - 1, t_wallv := - 1\<rparr>),
            \<lparr>hdata = [4, 7], hpos = 2\<rparr>)
   \<and> hdata \<lparr>hdata = [4, 7 :: byte], hpos = 0\<rparr> ! hpos \<lparr>hdata = [4, 7 :: byte], hpos = 0\<rparr>
       AND 0x18 = 0
   \<and> t_liquid (blank_tile\<lparr>t_wall := 7, t_wallu := - 1, t_wallv := - 1\<rparr>) = 0
   \<and> \<not> lava (blank_tile\<lparr>t_wall := 7, t_wallu := - 1, t_wallv := - 1\<rparr>)
   \<and> \<not> honey (blank_tile\<lparr>t_wall := 7, t_wallu := - 1, t_wallv := - 1\<rparr>)"
proof -
  have h: "Tile_load [] (blank_tile\<lparr>t_liquid := 9\<rparr>) \<lparr>hdata = [4, 7], hpos = 0\<rparr>
     = Inr ((0, blank_tile\<lparr>t_wall := 7, t_wallu := - 1, t_wallv := - 1\<rparr>),
            \<lparr>hdata = [4, 7], hpos = 2\<rparr>)"
    by (simp add: Tile_load_unfold)
  have b: "hdata \<lparr>hdata = [4, 7 :: byte], hpos = 0\<rparr> ! hpos \<lparr>hdata = [4, 7 :: byte], hpos = 0\<rparr>
       AND 0x18 = 0"
    by simp
  from tile_lava_honey_exclusive [OF h] b h show ?thesis by blast
qed

text \<open>
  C10: when the first flag byte \<open>f1\<close> of a record has both top bits set (\<open>f1 >> 6 = 3\<close>),
  the run-length step reads nothing and yields 0, exactly as the one of selector 0 does:
  the decode ends where the fields end, with run length 0.
\<close>

theorem tile_rle_reserved_selector:
  assumes "Tile_fields extra t h = Inr ((f1, t'), h1)"
    and "drop_bit 6 f1 = 3"
  shows "f1 = hdata h ! hpos h
         \<and> Tile_rle f1 h1 = Inr (0, h1) \<and> Tile_rle f1 h1 = Tile_rle 0 h1
         \<and> Tile_load extra t h = Inr ((0, t'), h1)"
  using assms Tile_fields_res(1) [OF assms(1)]
  by (simp add: Tile_load_def Tile_rle_def bindR_def ret_def)

theorem tile_rle_reserved_selector_witness:
  "Tile_fields [] blank_tile \<lparr>hdata = [0xC0, 5, 6], hpos = 0\<rparr>
     = Inr ((0xC0, blank_tile), \<lparr>hdata = [0xC0, 5, 6], hpos = 1\<rparr>)
   \<and> drop_bit 6 (0xC0 :: byte) = 3
   \<and> Tile_load [] blank_tile \<lparr>hdata = [0xC0, 5, 6], hpos = 0\<rparr>
     = Inr ((0, blank_tile), \<lparr>hdata = [0xC0, 5, 6], hpos = 1\<rparr>)"
proof -
  have h: "Tile_fields [] blank_tile \<lparr>hdata = [0xC0, 5, 6], hpos = 0\<rparr>
     = Inr ((0xC0, blank_tile), \<lparr>hdata = [0xC0, 5, 6], hpos = 1\<rparr>)"
    by (simp add: Tile_load_unfold)
  have s: "drop_bit 6 (0xC0 :: byte) = 3" by simp
  from tile_rle_reserved_selector [OF h s] h s show ?thesis by blast
qed

section \<open>The bitmap reader\<close>

lemma mask_top: "k \<le> 7 \<Longrightarrow> (push_bit k (1 :: byte) = 0x80) = (k = 7)"
proof -
  assume "k \<le> 7"
  then have "k = 0 \<or> k = 1 \<or> k = 2 \<or> k = 3 \<or> k = 4 \<or> k = 5 \<or> k = 6 \<or> k = 7"
    by arith
  then show ?thesis by auto
qed

lemma and_mask_bit: "(cur AND push_bit k 1 \<noteq> 0) = bit (cur :: byte) k"
  by (simp add: bit_iff_and_push_bit_not_eq_0)

lemma map_upt_Suc_shift: "map f [0..<Suc n] = f 0 # map (\<lambda>j. f (Suc j)) [0..<n]"
  by (simp add: upt_conv_Cons map_Suc_upt [symmetric] del: upt_Suc)

lemma readBits_spec:
  assumes "k \<le> 7" and "hpos h + (k + n) div 8 \<le> length (hdata h)"
  shows "readBits n (push_bit k 1) cur acc h
           = Inr (acc @ map (\<lambda>j. bit ((cur # drop (hpos h) (hdata h)) ! ((k + 1 + j) div 8))
                                     ((k + 1 + j) mod 8)) [0..<n],
                  h\<lparr>hpos := hpos h + (k + n) div 8\<rparr>)"
  using assms
proof (induction n arbitrary: k cur acc h)
  case 0
  then show ?case by simp
next
  case (Suc n)
  show ?case
  proof (cases "k = 7")
    case True
    from Suc.prems(2) True have lt: "hpos h < length (hdata h)" by simp
    let ?b = "hdata h ! hpos h"
    let ?h1 = "h\<lparr>hpos := hpos h + 1\<rparr>"
    have r: "r8 h = Inr (?b, ?h1)" using lt by (simp add: r8_def)
    have p: "hpos ?h1 + (0 + n) div 8 \<le> length (hdata ?h1)"
      using Suc.prems(2) True by simp
    have d: "?b # drop (Suc (hpos h)) (hdata h) = drop (hpos h) (hdata h)"
      using lt by (simp add: Cons_nth_drop_Suc)
    have ih: "readBits n 1 ?b (acc @ [?b AND 1 \<noteq> 0]) ?h1
        = Inr ((acc @ [?b AND 1 \<noteq> 0])
                 @ map (\<lambda>j. bit ((?b # drop (hpos ?h1) (hdata ?h1)) ! ((0 + 1 + j) div 8))
                                  ((0 + 1 + j) mod 8)) [0..<n],
               ?h1\<lparr>hpos := hpos ?h1 + (0 + n) div 8\<rparr>)"
      using Suc.IH [of 0 ?h1 ?b "acc @ [?b AND 1 \<noteq> 0]"] p by simp
    have b0: "(?b AND 1 \<noteq> 0) = bit ?b 0"
      using and_mask_bit [of ?b 0] by simp
    have idx: "(7 + 1 + Suc j) div 8 = Suc ((1 + j) div 8)" "(7 + 1 + Suc j) mod 8 = (1 + j) mod 8" for j :: nat
      by presburger+
    have pos: "hpos h + 1 + n div 8 = hpos h + (7 + Suc n) div 8" by simp
    show ?thesis
      unfolding True
      apply (subst map_upt_Suc_shift)
      apply (simp only: idx)
      using r ih d b0 pos lt
      apply (simp add: nth_Cons')
      done
  next
    case False
    with Suc.prems(1) have k: "k + 1 \<le> 7" by simp
    have m: "push_bit k (1 :: byte) \<noteq> 0x80"
      using mask_top [OF Suc.prems(1)] False by simp
    have s: "push_bit 1 (push_bit k (1 :: byte)) = push_bit (k + 1) 1"
      by (simp add: push_bit_add [symmetric] del: push_bit_of_1)
    have p: "hpos h + (k + 1 + n) div 8 \<le> length (hdata h)"
      using Suc.prems(2) by simp
    note ih = Suc.IH [OF k p, of cur "acc @ [cur AND push_bit (k + 1) 1 \<noteq> 0]"]
    have c0: "(cur AND push_bit (k + 1) 1 \<noteq> 0) = bit cur (k + 1)"
      by (rule and_mask_bit)
    have z: "(k + 1) div 8 = 0" "(k + 1) mod 8 = k + 1" using k by simp_all
    show ?thesis
      apply (subst map_upt_Suc_shift)
      using m s ih c0 z
      apply (simp add: add.assoc del: push_bit_of_1)
      done
  qed
qed

text \<open>
  C1, as the claim states it, fails: the first bit of a byte is not taken with the mask
  \<open>0x80\<close>. For the one-bit bitmap stored in the byte \<open>0x80\<close> the decoder yields \<open>False\<close>,
  where the MSB-first reading yields \<open>True\<close>.
\<close>

theorem bitmap_first_bit_is_not_msb:
  "readBitmap 1 \<lparr>hdata = [0x80], hpos = 0\<rparr> = Inr ([False], \<lparr>hdata = [0x80], hpos = 1\<rparr>)
   \<and> msb_first [0x80] 0"
  by (simp add: readBitmap_def msb_first_def reader_unfold)

text \<open>
  C1, amended: for every bitmap of \<open>n\<close> bits read by the decoder (the loop is the same in
  \<^verbatim>\<open>World::run\<close> and, twice, in \<^verbatim>\<open>World::loadPlayer2\<close>), when the \<open>(n + 7) div 8\<close> bytes
  are there, the decode succeeds, consumes exactly these bytes, and bit \<open>i\<close> of the vector
  is bit \<open>i mod 8\<close> of byte \<open>i div 8\<close>, least significant bit first: the first bit of each
  byte comes from the mask \<open>0x01\<close>, the mask is shifted left for each further bit, and a
  fresh byte is read when the mask stands at \<open>0x80\<close>.
\<close>

theorem readBitmap_lsb_first:
  assumes "hpos h + (nat n + 7) div 8 \<le> length (hdata h)"
  shows "\<exists>ex. readBitmap n h = Inr (ex, h\<lparr>hpos := hpos h + (nat n + 7) div 8\<rparr>)
           \<and> length ex = nat n
           \<and> (\<forall>i < nat n. ex ! i = bit (hdata h ! (hpos h + i div 8)) (i mod 8))"
proof -
  let ?ex = "map (\<lambda>j. bit ((0 # drop (hpos h) (hdata h)) ! ((7 + 1 + j) div 8))
                          ((7 + 1 + j) mod 8)) [0..<nat n]"
  have m: "push_bit 7 (1 :: byte) = 0x80" by simp
  have a: "hpos h + (7 + nat n) div 8 \<le> length (hdata h)"
    using assms by (simp add: add.commute)
  have "readBits (nat n) (push_bit 7 1) 0 [] h
      = Inr ([] @ ?ex, h\<lparr>hpos := hpos h + (7 + nat n) div 8\<rparr>)"
    using a by (intro readBits_spec) simp
  then have r: "readBitmap n h = Inr (?ex, h\<lparr>hpos := hpos h + (nat n + 7) div 8\<rparr>)"
    unfolding readBitmap_def m by (simp add: add.commute)
  have l: "length ?ex = nat n" by simp
  have b: "?ex ! i = bit (hdata h ! (hpos h + i div 8)) (i mod 8)" if "i < nat n" for i
  proof -
    from that assms have "hpos h + i div 8 < length (hdata h)" by arith
    moreover have "(7 + 1 + i) div 8 = Suc (i div 8)" "(7 + 1 + i) mod 8 = i mod 8"
      by presburger+
    ultimately show ?thesis using that by (simp del: One_nat_def)
  qed
  from r l b show ?thesis by blast
qed

theorem readBitmap_lsb_first_witness:
  "hpos \<lparr>hdata = [5, 1, 7], hpos = 0\<rparr> + (nat 9 + 7) div 8 \<le> length (hdata \<lparr>hdata = [5, 1, 7 :: byte], hpos = 0\<rparr>)
   \<and> readBitmap 9 \<lparr>hdata = [5, 1, 7], hpos = 0\<rparr>
       = Inr ([True, False, True, False, False, False, False, False, True],
              \<lparr>hdata = [5, 1, 7], hpos = 2\<rparr>)"
proof -
  let ?h = "\<lparr>hdata = [5, 1, 7 :: byte], hpos = 0\<rparr>"
  have a: "hpos ?h + (nat 9 + 7) div 8 \<le> length (hdata ?h)" by simp
  from readBitmap_lsb_first [OF a] obtain ex where
    r: "readBitmap 9 ?h = Inr (ex, ?h\<lparr>hpos := hpos ?h + (nat 9 + 7) div 8\<rparr>)"
    and l: "length ex = nat 9"
    and b: "\<forall>i<nat 9. ex ! i = bit (hdata ?h ! (hpos ?h + i div 8)) (i mod 8)"
    by blast
  have "ex = map ((!) ex) [0..<length ex]" by (simp add: map_nth)
  also have "\<dots> = map (\<lambda>i. bit (hdata ?h ! (hpos ?h + i div 8)) (i mod 8)) [0..<9]"
    using l b by simp
  also have "\<dots> = [True, False, True, False, False, False, False, False, True]"
    by (simp add: upt_rec [of _ "numeral _"] bit_numeral_simps)
  finally show ?thesis using a r by simp
qed

section \<open>The version gate\<close>

lemma r32_Inr:
  "r32 h = Inr (v, h') \<Longrightarrow> h' = h\<lparr>hpos := hpos h + 4\<rparr>"
  by (auto simp: r32_def r8_def elim!: bindR_InrE split: if_splits)

text \<open>
  C8: when the version word (the first four bytes, read as a signed 32-bit integer) is
  greater than \<open>HighestVersion\<close>, \<^verbatim>\<open>World::run\<close> emits the error ``Unsupported map version''
  and returns; when it is less than \<open>MinimumVersion\<close>, it emits ``We no longer support
  maps this old'' and returns. In both cases nothing else is emitted, the world is
  otherwise unchanged, and the handle stands right after the version word, at offset 4.
  The first test is made first, so the second case is stated for constants with
  \<open>MinimumVersion \<le> HighestVersion\<close>.
\<close>

theorem run_version_gate:
  assumes "r32 \<lparr>hdata = file_bytes env (filename w), hpos = 0\<rparr> = Inr (v, h1)"
    and "MinimumVersion env \<le> HighestVersion env"
  shows "(HighestVersion env < sint v \<longrightarrow>
            run env w = Inr (emit (LoadError (''Unsupported map version: '' @ number (sint v))) w,
                             \<lparr>hdata = file_bytes env (filename w), hpos = 4\<rparr>))
       \<and> (sint v < MinimumVersion env \<longrightarrow>
            run env w = Inr (emit (LoadError ''We no longer support maps this old'') w,
                             \<lparr>hdata = file_bytes env (filename w), hpos = 4\<rparr>))"
proof -
  have h1: "h1 = \<lparr>hdata = file_bytes env (filename w), hpos = 4\<rparr>"
    using r32_Inr [OF assms(1)] by simp
  have "run env w = Inr (emit (LoadError (''Unsupported map version: '' @ number (sint v))) w, h1)"
    if "HighestVersion env < sint v"
    using that assms(1) by (simp add: run_def run_handle_def bindR_def ret_def)
  moreover
  have "run env w = Inr (emit (LoadError ''We no longer support maps this old'') w, h1)"
    if "sint v < MinimumVersion env"
    using that assms by (simp add: run_def run_handle_def bindR_def ret_def)
  ultimately show ?thesis unfolding h1 by blast
qed

theorem run_version_gate_witness:
  "r32 \<lparr>hdata = file_bytes (demo_env False [0x2C, 1, 0, 0, 9]) (filename demo_world), hpos = 0\<rparr>
     = Inr (300, \<lparr>hdata = [0x2C, 1, 0, 0, 9], hpos = 4\<rparr>)
   \<and> MinimumVersion (demo_env False [0x2C, 1, 0, 0, 9]) \<le> HighestVersion (demo_env False [0x2C, 1, 0, 0, 9])
   \<and> HighestVersion (demo_env False [0x2C, 1, 0, 0, 9]) < sint (300 :: 32 word)
   \<and> run (demo_env False [0x2C, 1, 0, 0, 9]) demo_world
       = Inr (emit (LoadError ''Unsupported map version: 300'') demo_world,
              \<lparr>hdata = [0x2C, 1, 0, 0, 9], hpos = 4\<rparr>)
   \<and> r32 \<lparr>hdata = file_bytes (demo_env False [50, 0, 0, 0, 9]) (filename demo_world), hpos = 0\<rparr>
     = Inr (50, \<lparr>hdata = [50, 0, 0, 0, 9], hpos = 4\<rparr>)
   \<and> sint (50 :: 32 word) < MinimumVersion (demo_env False [50, 0, 0, 0, 9])
   \<and> run (demo_env False [50, 0, 0, 0, 9]) demo_world
       = Inr (emit (LoadError ''We no longer support maps this old'') demo_world,
              \<lparr>hdata = [50, 0, 0, 0, 9], hpos = 4\<rparr>)"
proof -
  let ?e = "demo_env False [0x2C, 1, 0, 0, 9]" and ?f = "demo_env False [50, 0, 0, 0, 9]"
  have a: "r32 \<lparr>hdata = file_bytes ?e (filename demo_world), hpos = 0\<rparr>
     = Inr (300, \<lparr>hdata = [0x2C, 1, 0, 0, 9], hpos = 4\<rparr>)"
    by (simp add: demo_env_def reader_unfold)
  have b: "r32 \<lparr>hdata = file_bytes ?f (filename demo_world), hpos = 0\<rparr>
     = Inr (50, \<lparr>hdata = [50, 0, 0, 0, 9], hpos = 4\<rparr>)"
    by (simp add: demo_env_def reader_unfold)
  have m: "MinimumVersion ?e \<le> HighestVersion ?e" "MinimumVersion ?f \<le> HighestVersion ?f"
    by (simp_all add: demo_env_def)
  have hi: "HighestVersion ?e < sint (300 :: 32 word)" by (simp add: demo_env_def)
  have lo: "sint (50 :: 32 word) < MinimumVersion ?f" by (simp add: demo_env_def)
  have n: "number (sint (300 :: 32 word)) = ''300''" by (simp add: number_def decimal.simps)
  have fe: "file_bytes ?e (filename demo_world) = [0x2C, 1, 0, 0, 9]"
    and ff: "file_bytes ?f (filename demo_world) = [50, 0, 0, 0, 9]"
    by (simp_all add: demo_env_def)
  from run_version_gate [OF a m(1)] hi n fe
  have 1: "run ?e demo_world = Inr (emit (LoadError ''Unsupported map version: 300'') demo_world,
              \<lparr>hdata = [0x2C, 1, 0, 0, 9], hpos = 4\<rparr>)" by simp
  from run_version_gate [OF b m(2)] lo ff
  have 2: "run ?f demo_world = Inr (emit (LoadError ''We no longer support maps this old'') demo_world,
              \<lparr>hdata = [50, 0, 0, 0, 9], hpos = 4\<rparr>)" by simp
  from a b m hi lo 1 2 show ?thesis by simp
qed

section \<open>Entities\<close>

lemma never_ret [simp]: "never e (ret a)"
  by (simp add: never_def ret_def)

lemma never_fail [simp]: "e \<noteq> e' \<Longrightarrow> never e (fail e')"
  by (simp add: never_def fail_def)

lemma never_r8 [simp]: "e \<noteq> UnexpectedEof \<Longrightarrow> never e r8"
  by (auto simp: never_def r8_def)

lemma never_bindR: "never e m \<Longrightarrow> (\<And>a. never e (f a)) \<Longrightarrow> never e (bindR m f)"
  by (auto simp: never_def bindR_def split: sum.splits)

lemma never_if: "never e m \<Longrightarrow> never e n \<Longrightarrow> never e (if c then m else n)"
  by simp

lemma never_repeatR: "(\<And>s. never e (body s)) \<Longrightarrow> never e (repeatR n body s)"
  by (induction n arbitrary: s) (auto intro!: never_bindR)

lemma never_case_prod: "(\<And>a b. never e (f a b)) \<Longrightarrow> never e (case p of (a, b) \<Rightarrow> f a b)"
  by (cases p) simp

lemma never_Let: "(\<And>x. never e (f x)) \<Longrightarrow> never e (Let v f)"
  by (simp add: Let_def)

lemmas never_intros = never_bindR never_if never_repeatR never_case_prod never_Let

lemma never_r16 [simp]: "e \<noteq> UnexpectedEof \<Longrightarrow> never e r16"
  unfolding r16_def by (intro never_intros) simp_all

lemma never_r32 [simp]: "e \<noteq> UnexpectedEof \<Longrightarrow> never e r32"
  unfolding r32_def by (intro never_intros) simp_all

lemma never_loadEntity: "never UnknownEntityKind (loadEntity es)"
  unfolding loadEntity_def by (intro never_intros) simp_all

lemma never_loadEntities: "never UnknownEntityKind (loadEntities w)"
  unfolding loadEntities_def by (intro never_intros never_loadEntity) simp_all

text \<open>
  C4, as the claim states it, fails: a section of one record with kind byte 3 loads
  without any error, with an empty entity list.
\<close>

theorem unknown_entity_kind_is_no_error:
  "loadEntities demo_world \<lparr>hdata = [1, 0, 0, 0, 3], hpos = 0\<rparr>
     = Inr (demo_world\<lparr>entities := []\<rparr>, \<lparr>hdata = [1, 0, 0, 0, 3], hpos = 5\<rparr>)
   \<and> loadEntities demo_world \<lparr>hdata = [1, 0, 0, 0, 3], hpos = 0\<rparr> \<noteq> Inl UnknownEntityKind"
  by (simp add: loadEntities_def loadEntity_def reader_unfold)

text \<open>
  C4, amended: in the entities section decoder, a record whose kind byte is not 0, 1 or 2
  consumes its kind byte only and contributes no entity; the decoder goes on with the next
  record, and the section never fails with \<open>UnknownEntityKind\<close>.
\<close>

theorem unknown_entity_kind_is_skipped:
  assumes "r8 h = Inr (kind, h1)" and "kind \<noteq> 0" and "kind \<noteq> 1" and "kind \<noteq> 2"
  shows "loadEntity es h = Inr (es, h1) \<and> loadEntities w h0 \<noteq> Inl UnknownEntityKind"
proof
  show "loadEntity es h = Inr (es, h1)"
    using assms by (simp add: loadEntity_def bindR_def ret_def)
  show "loadEntities w h0 \<noteq> Inl UnknownEntityKind"
    using never_loadEntities [of w] by (simp add: never_def)
qed

theorem unknown_entity_kind_is_skipped_witness:
  "r8 \<lparr>hdata = [3, 0], hpos = 0\<rparr> = Inr (3, \<lparr>hdata = [3, 0], hpos = 1\<rparr>)
   \<and> (3 :: byte) \<noteq> 0 \<and> (3 :: byte) \<noteq> 1 \<and> (3 :: byte) \<noteq> 2
   \<and> loadEntity [TrainingDummy 1 2 3 4] \<lparr>hdata = [3, 0], hpos = 0\<rparr>
       = Inr ([TrainingDummy 1 2 3 4], \<lparr>hdata = [3, 0], hpos = 1\<rparr>)"
proof -
  have a: "r8 \<lparr>hdata = [3, 0], hpos = 0\<rparr> = Inr (3, \<lparr>hdata = [3, 0], hpos = 1\<rparr>)"
    by (simp add: r8_def)
  have b: "(3 :: byte) \<noteq> 0" "(3 :: byte) \<noteq> 1" "(3 :: byte) \<noteq> 2" by simp_all
  from unknown_entity_kind_is_skipped [OF a b] a b show ?thesis by blast
qed

section \<open>The player map\<close>

lemma seen_next_funpow:
  "(seen_next ^^ n) (offset, ts)
     = (offset + int n, \<lambda>k. if offset \<le> k \<and> k < offset + int n then setSeen True (ts k) else ts k)"
proof (induction n arbitrary: offset ts)
  case 0
  show ?case by (auto simp: fun_eq_iff)
next
  case (Suc n)
  have "(seen_next ^^ Suc n) (offset, ts) = (seen_next ^^ n) (seen_next (offset, ts))"
    by (simp add: funpow_swap1)
  also have "\<dots> = (seen_next ^^ n) (offset + 1, ts(offset := setSeen True (ts offset)))"
    by (simp add: seen_next_def)
  finally show ?case
    by (auto simp: Suc.IH fun_eq_iff)
qed

lemma seen_setSeen [simp]: "seen (setSeen True t)"
  by (simp add: seen_def setSeen_def or_eq_0_iff)

lemma seen_all_eq:
  "0 \<le> wide \<Longrightarrow> 0 \<le> high \<Longrightarrow>
   snd (seen_all wide high ts)
     = (\<lambda>k. if 0 \<le> k \<and> k < wide * high then setSeen True (ts k) else ts k)"
  by (simp add: seen_all_def funpow_mult seen_next_funpow nat_mult_distrib)

text \<open>
  C5: when the player-map overlay runs and the companion map is found neither under the
  name made of the GUID (the header has no GUID, or the path does not exist) nor under the
  name made of the world id, the overlay returns without an error or any other signal, and
  every tile of the world (offsets \<open>0 ..< tilesWide * tilesHigh\<close>) has its seen flag set.
\<close>

theorem missing_player_map_marks_all_seen:
  assumes "hd_guid (header w) = None \<or>
             (\<exists>g. hd_guid (header w) = Some g \<and> 16 \<le> length g \<and> \<not> dir_exists env (guid_path env w))"
    and "\<not> dir_exists env (worldID_path env w)"
    and "0 \<le> tilesWide w" and "0 \<le> tilesHigh w"
  shows "\<exists>w'. loadPlayer env w = Inr w'
           \<and> (\<forall>offset. 0 \<le> offset \<and> offset < tilesWide w * tilesHigh w \<longrightarrow> seen (tiles w' offset))
           \<and> events w' = events w"
proof -
  from assms(1,2) have p: "\<not> dir_exists env (map_path env w)"
    by (auto simp: map_path_def)
  from assms(1) have g: "\<not> (case hd_guid (header w) of None \<Rightarrow> False | Some g \<Rightarrow> length g < 16)"
    by auto
  let ?w' = "w\<lparr>tiles := snd (seen_all (tilesWide w) (tilesHigh w) (tiles w))\<rparr>"
  have "loadPlayer env w = Inr ?w'"
    using p g by (simp add: loadPlayer_def)
  moreover have "\<forall>offset. 0 \<le> offset \<and> offset < tilesWide w * tilesHigh w \<longrightarrow> seen (tiles ?w' offset)"
    using assms(3,4) by (simp add: seen_all_eq)
  moreover have "events ?w' = events w" by simp
  ultimately show ?thesis by blast
qed

theorem missing_player_map_marks_all_seen_witness:
  "hd_guid (header demo_world) = None
   \<and> \<not> dir_exists (demo_env False []) (worldID_path (demo_env False []) demo_world)
   \<and> 0 \<le> tilesWide demo_world \<and> 0 \<le> tilesHigh demo_world
   \<and> (\<exists>w'. loadPlayer (demo_env False []) demo_world = Inr w'
          \<and> seen (tiles w' 0) \<and> seen (tiles w' 1) \<and> seen (tiles w' 2) \<and> seen (tiles w' 3)
          \<and> events w' = [])"
proof -
  let ?e = "demo_env False []"
  have g: "hd_guid (header demo_world) = None" by (simp add: demo_world_def)
  have p: "\<not> dir_exists ?e (worldID_path ?e demo_world)" by (simp add: demo_env_def)
  have d: "0 \<le> tilesWide demo_world" "0 \<le> tilesHigh demo_world" by (simp_all add: demo_world_def)
  have s: "tilesWide demo_world * tilesHigh demo_world = 4" "events demo_world = []"
    by (simp_all add: demo_world_def)
  from missing_player_map_marks_all_seen [OF disjI1 [OF g] p d]
  obtain w' where "loadPlayer ?e demo_world = Inr w'"
    and "\<forall>offset. 0 \<le> offset \<and> offset < tilesWide demo_world * tilesHigh demo_world \<longrightarrow> seen (tiles w' offset)"
    and "events w' = events demo_world"
    by blast
  with s have "loadPlayer ?e demo_world = Inr w' \<and> seen (tiles w' 0) \<and> seen (tiles w' 1)
     \<and> seen (tiles w' 2) \<and> seen (tiles w' 3) \<and> events w' = []"
    by simp
  with g p d show ?thesis by blast
qed

lemma unseen_setSeen [simp]: "unseen (setSeen s t) = unseen t"
  by (simp add: unseen_def setSeen_def bit.conj_disj_distrib2)

lemma frame_refl [simp]: "frame ts ts"
  by (simp add: frame_def)

lemma frame_upd: "frame ts0 ts \<Longrightarrow> frame ts0 (ts(k := setSeen s (ts k)))"
  by (simp add: frame_def)

lemma funpow_invariant: "P x \<Longrightarrow> (\<And>x. P x \<Longrightarrow> P (f x)) \<Longrightarrow> P ((f ^^ n) x)"
  by (induction n) auto


lemma frame3_simp [simp]: "frame3 ts0 (a, b, ts) = frame ts0 ts"
  by (simp add: frame3_def)

lemma frame3_seen_down: "frame3 ts0 s \<Longrightarrow> frame3 ts0 ((seen_down wide b ^^ n) s)"
  by (rule funpow_invariant) (auto simp: seen_down_def frame3_def intro: frame_upd)

lemma frame3_seen_right_step: "frame3 ts0 s \<Longrightarrow> frame3 ts0 (seen_right b s)"
  by (auto simp: seen_right_def frame3_def intro: frame_upd)

lemma frame3_seen_right: "frame3 ts0 s \<Longrightarrow> frame3 ts0 ((seen_right b ^^ n) s)"
  by (rule funpow_invariant) (auto intro: frame3_seen_right_step)

lemma frame_seen_all: "frame ts (snd (seen_all wide high ts))"
proof -
  have "frame ts (snd ((seen_next ^^ n) (offset, ts')))" if "frame ts ts'" for n offset ts'
    using that by (induction n arbitrary: offset ts')
      (auto simp: funpow_swap1 seen_next_def intro: frame_upd)
  then show ?thesis by (simp add: seen_all_def funpow_mult)
qed

text \<open>An invariant of the state of a counted loop.\<close>

lemma repeatR_invariant:
  assumes "repeatR n body s h = Inr (r, h')" and "I s"
    and "\<And>s h r h'. I s \<Longrightarrow> body s h = Inr (r, h') \<Longrightarrow> I r"
  shows "I r"
  using assms(1,2)
proof (induction n arbitrary: s h)
  case 0
  then show ?case by simp
next
  case (Suc n)
  from Suc.prems(1) obtain s1 h1 where b: "body s h = Inr (s1, h1)"
    and r: "repeatR n body s1 h1 = Inr (r, h')"
    by (auto elim!: bindR_InrE)
  from assms(3) [OF Suc.prems(2) b] have "I s1" .
  with r show ?case by (rule Suc.IH)
qed

lemma frame_loadPlayer1_cell:
  assumes "loadPlayer1_cell wide version y offset ts h = Inr ((y', offset', ts'), h')"
    and "frame ts0 ts"
  shows "frame ts0 ts'"
proof -
  have a: "frame3 ts0 ((seen_down wide b ^^ n) (y, offset, ts))" for b n
    using assms(2) by (intro frame3_seen_down) simp
  have b: "frame3 ts0 ((seen_down wide b ^^ n) (y, offset, ts(offset := setSeen True (ts offset))))" for b n
    using assms(2) by (intro frame3_seen_down) (simp add: frame_upd)
  from assms(1) have "frame3 ts0 (y', offset', ts')"
    unfolding loadPlayer1_cell_def
    by (auto elim!: bindR_InrE split: if_splits simp: a b simp del: frame3_simp)
  then show ?thesis by simp
qed

lemma frame_loadPlayer1_column:
  "loadPlayer1_column wide high version y offset ts h = Inr (ts', h') \<Longrightarrow> frame ts0 ts
     \<Longrightarrow> frame ts0 ts'"
proof (induction wide high version y offset ts h rule: loadPlayer1_column.induct)
  case (1 wide high version y offset ts h)
  show ?case
  proof (cases "y < high")
    case False
    with "1.prems" show ?thesis by (simp add: loadPlayer1_column.simps)
  next
    case True
    with "1.prems"(1) obtain y1 offset1 ts1 h1 where
      c: "loadPlayer1_cell wide version y offset ts h = Inr ((y1, offset1, ts1), h1)" and
      r: "loadPlayer1_column wide high version (y1 + 1) (offset1 + wide) ts1 h1 = Inr (ts', h')"
      by (auto simp: loadPlayer1_column.simps [of wide high version y offset ts h]
            split: sum.splits)
    from frame_loadPlayer1_cell [OF c "1.prems"(2)] have "frame ts0 ts1" .
    with "1.IH" [OF True c refl refl refl r] show ?thesis by simp
  qed
qed

lemma frame_loadPlayer1:
  assumes "loadPlayer1 version w h = Inr (w', h')"
  shows "frame (tiles w) (tiles w')"
proof -
  from assms obtain x ts h1 h2 where
    r: "repeatR (nat (tilesWide w))
          (\<lambda>(x, ts). bindR (loadPlayer1_column (tilesWide w) (tilesHigh w) version 0 x ts)
                        (\<lambda>ts'. ret (x + 1, ts')))
          (0, tiles w) h1 = Inr ((x, ts), h2)" and w': "w' = w\<lparr>tiles := ts\<rparr>"
    unfolding loadPlayer1_def by (auto elim!: bindR_InrE)
  have "(\<lambda>(x, ts). frame (tiles w) ts) (x, ts)"
    using r
  proof (rule repeatR_invariant)
    show "(\<lambda>(x, ts). frame (tiles w) ts) (0, tiles w)" by simp
  next
    fix s :: "int \<times> (int \<Rightarrow> Tile)" and h r h'
    assume i: "(\<lambda>(x, ts). frame (tiles w) ts) s"
      and b: "(\<lambda>(x, ts). bindR (loadPlayer1_column (tilesWide w) (tilesHigh w) version 0 x ts)
                        (\<lambda>ts'. ret (x + 1, ts'))) s h = Inr (r, h')"
    obtain x0 ts0 where s: "s = (x0, ts0)" by (cases s)
    from b s obtain ts1 where
      c: "loadPlayer1_column (tilesWide w) (tilesHigh w) version 0 x0 ts0 h = Inr (ts1, h')"
      and r: "r = (x0 + 1, ts1)"
      by (auto elim!: bindR_InrE)
    from i s have "frame (tiles w) ts0" by simp
    from frame_loadPlayer1_column [OF c this] r
    show "(\<lambda>(x, ts). frame (tiles w) ts) r" by simp
  qed
  then show ?thesis by (simp add: w')
qed

lemma frame_loadPlayer2_cell:
  assumes "loadPlayer2_cell x offset ts h = Inr ((x', offset', ts'), h')"
    and "frame ts0 ts"
  shows "frame ts0 ts'"
proof -
  have u: "frame3 ts0 (x, offset, ts(offset := setSeen b (ts offset)))" for b
    using assms(2) by (simp add: frame_upd)
  have a: "frame3 ts0 ((seen_right b ^^ n) (x, offset, ts(offset := setSeen c (ts offset))))"
    for b c n
    using u by (rule frame3_seen_right)
  have r: "frame3 ts0 s'"
    if "repeatR n (\<lambda>s. bindR r8 (\<lambda>l. ret (seen_right True s)))
          (x, offset, ts(offset := setSeen True (ts offset))) h1 = Inr (s', h2)"
    for n s' h1 h2
    using that
  proof (rule repeatR_invariant)
    show "frame3 ts0 (x, offset, ts(offset := setSeen True (ts offset)))" by (rule u)
  next
    fix s h r h'
    assume "frame3 ts0 s" and "bindR r8 (\<lambda>l. ret (seen_right True s)) h = Inr (r, h')"
    then show "frame3 ts0 r"
      by (auto elim!: bindR_InrE intro: frame3_seen_right_step)
  qed
  have fin: "frame3 ts0 s'"
    if "(if tile \<noteq> 0 then
           (if light = 255 then
              ret ((seen_right True ^^ n) (x, offset, ts(offset := setSeen True (ts offset))))
            else
              repeatR n (\<lambda>s. bindR r8 (\<lambda>l. ret (seen_right True s)))
                (x, offset, ts(offset := setSeen True (ts offset))))
         else
           ret ((seen_right False ^^ n)
                  (x, offset, ts(offset := setSeen False (ts offset))))) h1 = Inr (s', h2)"
    for tile :: byte and light :: byte and n s' h1 h2
    using that by (auto split: if_splits simp: a simp del: frame3_simp intro: r)
  from assms(1) have "frame3 ts0 (x', offset', ts')"
    unfolding loadPlayer2_cell_def Let_def
    by (elim bindR_InrE) (erule fin)
  then show ?thesis by simp
qed

lemma frame_loadPlayer2_row:
  "loadPlayer2_row wide x offset ts h = Inr ((offset', ts'), h') \<Longrightarrow> frame ts0 ts
     \<Longrightarrow> frame ts0 ts'"
proof (induction wide x offset ts h rule: loadPlayer2_row.induct)
  case (1 wide x offset ts h)
  show ?case
  proof (cases "x < wide")
    case False
    with "1.prems" show ?thesis by (simp add: loadPlayer2_row.simps)
  next
    case True
    with "1.prems"(1) obtain x1 offset1 ts1 h1 where
      c: "loadPlayer2_cell x offset ts h = Inr ((x1, offset1, ts1), h1)" and
      r: "loadPlayer2_row wide (x1 + 1) (offset1 + 1) ts1 h1 = Inr ((offset', ts'), h')"
      by (auto simp: loadPlayer2_row.simps [of wide x offset ts h] split: sum.splits)
    from frame_loadPlayer2_cell [OF c "1.prems"(2)] have "frame ts0 ts1" .
    with "1.IH" [OF True c refl refl refl r] show ?thesis by simp
  qed
qed

lemma frame_loadPlayer2_body:
  assumes "loadPlayer2_body env version w h = Inr (w', h')"
  shows "frame (tiles w) (tiles w')"
proof -
  from assms obtain offset ts h1 h2 where
    r: "repeatR (nat (tilesHigh w))
          (\<lambda>(offset, ts). loadPlayer2_row (tilesWide w) 0 offset ts) (0, tiles w) h1
        = Inr ((offset, ts), h2)" and w': "w' = w\<lparr>tiles := ts\<rparr>"
    unfolding loadPlayer2_body_def by (auto elim!: bindR_InrE)
  have "(\<lambda>(offset, ts). frame (tiles w) ts) (offset, ts)"
    using r
  proof (rule repeatR_invariant)
    show "(\<lambda>(offset, ts). frame (tiles w) ts) (0, tiles w)" by simp
  next
    fix s :: "int \<times> (int \<Rightarrow> Tile)" and h r h'
    assume i: "(\<lambda>(offset, ts). frame (tiles w) ts) s"
      and b: "(\<lambda>(offset, ts). loadPlayer2_row (tilesWide w) 0 offset ts) s h = Inr (r, h')"
    obtain o0 ts0 where s: "s = (o0, ts0)" by (cases s)
    obtain o1 ts1 where r: "r = (o1, ts1)" by (cases r)
    from b s r have c: "loadPlayer2_row (tilesWide w) 0 o0 ts0 h = Inr ((o1, ts1), h')"
      by simp
    from i s have "frame (tiles w) ts0" by simp
    from frame_loadPlayer2_row [OF c this] r
    show "(\<lambda>(offset, ts). frame (tiles w) ts) r" by simp
  qed
  then show ?thesis by (simp add: w')
qed

lemma frame_loadPlayer2:
  assumes "loadPlayer2 env version w h = Inr (w', h')"
  shows "frame (tiles w) (tiles w')"
  using assms unfolding loadPlayer2_def
  by (auto elim!: bindR_InrE split: if_splits simp: emit_def dest!: frame_loadPlayer2_body)

text \<open>
  C9: the player-map overlay (the fallback for a missing file, the v1 decoder and the v2
  decoder) changes nothing of a tile but its seen bit \<open>0x200\<close>: for every offset, the tile
  after the overlay and the tile before it agree in every field and in every other flag
  bit.
\<close>

theorem player_map_changes_seen_only:
  assumes "loadPlayer env w = Inr w'"
  shows "\<forall>offset. unseen (tiles w' offset) = unseen (tiles w offset)"
proof -
  have "frame (tiles w) (tiles w')"
  proof (cases "dir_exists env (map_path env w)")
    case False
    with assms show ?thesis
      by (auto simp: loadPlayer_def frame_seen_all split: if_splits)
  next
    case True
    with assms obtain h' where
      "bindR r32 (\<lambda>v. if sint v \<le> 91 then loadPlayer1 (sint v) w else loadPlayer2 env (sint v) w)
         \<lparr>hdata = file_bytes env (map_path env w), hpos = 0\<rparr> = Inr (w', h')"
      by (auto simp: loadPlayer_def split: if_splits sum.splits)
    then show ?thesis
      by (auto elim!: bindR_InrE split: if_splits dest!: frame_loadPlayer1 frame_loadPlayer2)
  qed
  then show ?thesis by (simp add: frame_def)
qed

lemma v1_eval:
  "\<exists>w'. loadPlayer (demo_env True v1_map) demo_world = Inr w'
      \<and> seen (tiles w' 0) \<and> seen (tiles w' 2) \<and> \<not> seen (tiles w' 3) \<and> \<not> seen (tiles w' 1)"
  by (simp add: player_unfold reader_unfold v1_map_def Let_def)

theorem player_map_changes_seen_only_witness:
  "\<exists>w'. loadPlayer (demo_env True v1_map) demo_world = Inr w'
      \<and> seen (tiles w' 0) \<and> \<not> seen (tiles demo_world 0)
      \<and> unseen (tiles w' 0) = unseen (tiles demo_world 0)"
proof -
  from v1_eval obtain w' where e: "loadPlayer (demo_env True v1_map) demo_world = Inr w'"
    and s: "seen (tiles w' 0)" by blast
  have n: "\<not> seen (tiles demo_world 0)"
    by (simp add: demo_world_def seen_def blank_tile_def)
  from player_map_changes_seen_only [OF e] e s n show ?thesis by blast
qed

section \<open>Chests\<close>

lemma le16: "ucast (ucast w :: byte) OR push_bit 8 (ucast (ucast (drop_bit 8 w) :: byte)) = (w :: 16 word)"
  by (rule bit_word_eqI) (auto simp: bit_simps)

lemma le32:
  "ucast (ucast w :: byte) OR push_bit 8 (ucast (ucast (drop_bit 8 w) :: byte))
     OR push_bit 16 (ucast (ucast (drop_bit 16 w) :: byte))
     OR push_bit 24 (ucast (ucast (drop_bit 24 w) :: byte)) = (w :: 32 word)"
  apply (rule bit_word_eqI)
  subgoal for n
    by (cases "n < 8"; cases "n < 16"; cases "n < 24")
       (auto simp: bit_simps add_diff_inverse_nat)
  done

lemma r8_at:
  "hdata h = pre @ b # rest \<Longrightarrow> hpos h = length pre \<Longrightarrow>
     r8 h = Inr (b, h\<lparr>hpos := length pre + 1\<rparr>)"
  by (simp add: r8_def)

lemma r16_at:
  assumes "hdata h = pre @ enc16 w @ rest" and "hpos h = length pre"
  shows "r16 h = Inr (w, h\<lparr>hpos := length pre + 2\<rparr>)"
proof -
  let ?b0 = "ucast w :: byte" and ?b1 = "ucast (drop_bit 8 w) :: byte"
  have a: "r8 h = Inr (?b0, h\<lparr>hpos := length pre + 1\<rparr>)"
    using assms by (intro r8_at [where rest = "?b1 # rest"]) (simp_all add: enc16_def)
  have b: "r8 (h\<lparr>hpos := length pre + 1\<rparr>) = Inr (?b1, h\<lparr>hpos := length pre + 2\<rparr>)"
    using assms r8_at [of "h\<lparr>hpos := length pre + 1\<rparr>" "pre @ [?b0]" ?b1 rest]
    by (simp add: enc16_def)
  show ?thesis
    by (simp only: r16_def bindR_def a b ret_def le16 sum.case prod.case)
qed

lemma r32_at:
  assumes "hdata h = pre @ enc32 w @ rest" and "hpos h = length pre"
  shows "r32 h = Inr (w, h\<lparr>hpos := length pre + 4\<rparr>)"
proof -
  let ?b0 = "ucast w :: byte" and ?b1 = "ucast (drop_bit 8 w) :: byte"
  let ?b2 = "ucast (drop_bit 16 w) :: byte" and ?b3 = "ucast (drop_bit 24 w) :: byte"
  have a: "r8 h = Inr (?b0, h\<lparr>hpos := length pre + 1\<rparr>)"
    using assms by (intro r8_at [where rest = "?b1 # ?b2 # ?b3 # rest"]) (simp_all add: enc32_def)
  have b: "r8 (h\<lparr>hpos := length pre + 1\<rparr>) = Inr (?b1, h\<lparr>hpos := length pre + 2\<rparr>)"
    using assms r8_at [of "h\<lparr>hpos := length pre + 1\<rparr>" "pre @ [?b0]" ?b1 "?b2 # ?b3 # rest"]
    by (simp add: enc32_def)
  have c: "r8 (h\<lparr>hpos := length pre + 2\<rparr>) = Inr (?b2, h\<lparr>hpos := length pre + 3\<rparr>)"
    using assms r8_at [of "h\<lparr>hpos := length pre + 2\<rparr>" "pre @ [?b0, ?b1]" ?b2 "?b3 # rest"]
    by (simp add: enc32_def)
  have d: "r8 (h\<lparr>hpos := length pre + 3\<rparr>) = Inr (?b3, h\<lparr>hpos := length pre + 4\<rparr>)"
    using assms r8_at [of "h\<lparr>hpos := length pre + 3\<rparr>" "pre @ [?b0, ?b1, ?b2]" ?b3 rest]
    by (simp add: enc32_def)
  show ?thesis
    by (simp only: r32_def bindR_def a b c d ret_def le32 sum.case prod.case)
qed

lemma loadSlot_at:
  assumes "hdata h = pre @ enc_slot s @ rest" and "hpos h = length pre"
  shows "loadSlot env items h
           = Inr (if filled s then items @ [slot_item env s] else items,
                  h\<lparr>hpos := length pre + length (enc_slot s)\<rparr>)"
proof -
  obtain stack itemid prefixid where s: "s = (stack, itemid, prefixid)" by (cases s)
  show ?thesis
  proof (cases "0 < sint stack")
    case False
    with assms s have "hdata h = pre @ enc16 stack @ rest"
      by (simp add: enc_slot_def)
    from r16_at [OF this assms(2)] False s show ?thesis
      by (simp add: loadSlot_def bindR_def ret_def filled_def enc_slot_def enc16_def)
  next
    case True
    let ?h1 = "h\<lparr>hpos := length pre + 2\<rparr>" and ?h2 = "h\<lparr>hpos := length pre + 6\<rparr>"
    from assms s True have d: "hdata h = pre @ enc16 stack @ (enc32 itemid @ prefixid # rest)"
      by (simp add: enc_slot_def)
    have a: "r16 h = Inr (stack, ?h1)" using d assms(2) by (rule r16_at)
    have b: "r32 ?h1 = Inr (itemid, ?h2)"
      using r32_at [of ?h1 "pre @ enc16 stack" itemid "prefixid # rest"] d
      by (simp add: enc16_def)
    have c: "r8 ?h2 = Inr (prefixid, h\<lparr>hpos := length pre + 7\<rparr>)"
      using r8_at [of ?h2 "pre @ enc16 stack @ enc32 itemid" prefixid rest] d
      by (simp add: enc16_def enc32_def)
    from a b c True s show ?thesis
      by (simp add: loadSlot_def bindR_def ret_def filled_def enc_slot_def enc16_def enc32_def
            slot_item_def)
  qed
qed

lemma loadSlots_at:
  assumes "hdata h = pre @ concat (map enc_slot slots) @ rest" and "hpos h = length pre"
  shows "repeatR (length slots) (loadSlot env) items h
           = Inr (items @ map (slot_item env) (filter filled slots),
                  h\<lparr>hpos := length pre + length (concat (map enc_slot slots))\<rparr>)"
  using assms
proof (induction slots arbitrary: items pre h)
  case Nil
  then show ?case by (simp add: ret_def)
next
  case (Cons s slots)
  let ?h1 = "h\<lparr>hpos := length pre + length (enc_slot s)\<rparr>"
  let ?items1 = "if filled s then items @ [slot_item env s] else items"
  from Cons.prems have d: "hdata h = pre @ enc_slot s @ (concat (map enc_slot slots) @ rest)"
    by simp
  have a: "loadSlot env items h = Inr (?items1, ?h1)"
    using d Cons.prems(2) by (rule loadSlot_at)
  have "repeatR (length slots) (loadSlot env) ?items1 ?h1
      = Inr (?items1 @ map (slot_item env) (filter filled slots),
             ?h1\<lparr>hpos := length (pre @ enc_slot s) + length (concat (map enc_slot slots))\<rparr>)"
    using Cons.prems by (intro Cons.IH) simp_all
  with a show ?case
    by (simp add: bindR_def add.assoc)
qed

text \<open>
  Decoding inverts the layout of the slots: whatever the slots, a chest record made of
  their bytes decodes to the items of the filled ones.
\<close>

lemma loadChest_of_slots:
  assumes "r32 h = Inr (x, h1)" and "r32 h1 = Inr (y, h2)" and "rs h2 = Inr (name, h3)"
    and "hdata h3 = pre @ concat (map enc_slot slots) @ rest" and "hpos h3 = length pre"
  shows "loadChest env (int (length slots)) h
           = Inr (\<lparr>c_x = sint x, c_y = sint y, c_name = name,
                   c_items = map (slot_item env) (filter filled slots)\<rparr>,
                  h3\<lparr>hpos := hpos h3 + length (concat (map enc_slot slots))\<rparr>)"
  using assms loadSlots_at [OF assms(4,5), of env "[]"]
  by (simp add: loadChest_def bindR_def ret_def)

lemma r8_Inr:
  "r8 h = Inr (b, h') \<Longrightarrow>
     hpos h < length (hdata h) \<and> b = hdata h ! hpos h \<and> h' = h\<lparr>hpos := hpos h + 1\<rparr>"
  by (auto simp: r8_def split: if_splits)

lemma enc16_le:
  "enc16 (ucast (b0 :: byte) OR push_bit 8 (ucast (b1 :: byte))) = [b0, b1]"
proof -
  have "ucast (ucast b0 OR push_bit 8 (ucast b1) :: 16 word) = b0"
    by (rule bit_word_eqI) (auto simp: bit_simps dest: bit_imp_le_length)
  moreover have "ucast (drop_bit 8 (ucast b0 OR push_bit 8 (ucast b1) :: 16 word)) = b1"
    by (rule bit_word_eqI) (auto simp: bit_simps dest: bit_imp_le_length)
  ultimately show ?thesis by (simp add: enc16_def)
qed

lemma enc32_le:
  "enc32 (ucast (b0 :: byte) OR push_bit 8 (ucast (b1 :: byte)) OR push_bit 16 (ucast (b2 :: byte))
          OR push_bit 24 (ucast (b3 :: byte))) = [b0, b1, b2, b3]"
proof -
  let ?w = "ucast b0 OR push_bit 8 (ucast b1) OR push_bit 16 (ucast b2)
          OR push_bit 24 (ucast b3) :: 32 word"
  have "ucast ?w = b0"
    by (rule bit_word_eqI) (auto simp: bit_simps dest: bit_imp_le_length)
  moreover have "ucast (drop_bit 8 ?w) = b1"
    by (rule bit_word_eqI) (auto simp: bit_simps dest: bit_imp_le_length)
  moreover have "ucast (drop_bit 16 ?w) = b2"
    by (rule bit_word_eqI) (auto simp: bit_simps dest: bit_imp_le_length)
  moreover have "ucast (drop_bit 24 ?w) = b3"
    by (rule bit_word_eqI) (auto simp: bit_simps dest: bit_imp_le_length)
  ultimately show ?thesis by (simp add: enc32_def)
qed

lemma take_drop_Suc:
  "p < length d \<Longrightarrow> take (Suc n) (drop p d) = d ! p # take n (drop (Suc p) d)"
  by (simp add: Cons_nth_drop_Suc [symmetric])

lemma r16_Inr:
  assumes "r16 h = Inr (w, h')"
  shows "hpos h + 2 \<le> length (hdata h) \<and> hdata h' = hdata h \<and> hpos h' = hpos h + 2
         \<and> consumed h h' = enc16 w"
proof -
  from assms obtain b0 b1 h1 where a: "r8 h = Inr (b0, h1)" and b: "r8 h1 = Inr (b1, h')"
    and w: "w = ucast b0 OR push_bit 8 (ucast b1)"
    by (auto simp: r16_def elim!: bindR_InrE)
  from r8_Inr [OF a] r8_Inr [OF b] show ?thesis
    by (simp add: w enc16_le consumed_def take_drop_Suc numeral_2_eq_2)
qed

lemma r32_Inr_bytes:
  assumes "r32 h = Inr (w, h')"
  shows "hpos h + 4 \<le> length (hdata h) \<and> hdata h' = hdata h \<and> hpos h' = hpos h + 4
         \<and> consumed h h' = enc32 w"
proof -
  from assms obtain b0 b1 b2 b3 h1 h2 h3 where a: "r8 h = Inr (b0, h1)"
    and b: "r8 h1 = Inr (b1, h2)" and c: "r8 h2 = Inr (b2, h3)" and d: "r8 h3 = Inr (b3, h')"
    and w: "w = ucast b0 OR push_bit 8 (ucast b1) OR push_bit 16 (ucast b2)
          OR push_bit 24 (ucast b3)"
    by (auto simp: r32_def elim!: bindR_InrE)
  have 4: "(4 :: nat) = Suc (Suc (Suc (Suc 0)))" by simp
  from r8_Inr [OF a] r8_Inr [OF b] r8_Inr [OF c] r8_Inr [OF d] show ?thesis
    by (simp add: w enc32_le consumed_def take_drop_Suc 4)
qed

lemma consumed_append:
  assumes "hdata h1 = hdata h" and "hdata h2 = hdata h" and "hpos h \<le> hpos h1"
    and "hpos h1 \<le> hpos h2" and "hpos h2 \<le> length (hdata h)"
  shows "consumed h h2 = consumed h h1 @ consumed h1 h2"
proof -
  have "take (hpos h2 - hpos h) (drop (hpos h) (hdata h))
      = take (hpos h1 - hpos h) (drop (hpos h) (hdata h))
        @ take (hpos h2 - hpos h1) (drop (hpos h1 - hpos h) (drop (hpos h) (hdata h)))"
    using assms(3,4) take_add [of "hpos h1 - hpos h" "hpos h2 - hpos h1" "drop (hpos h) (hdata h)"]
    by simp
  then show ?thesis using assms by (simp add: consumed_def)
qed

lemma consumed_self [simp]: "consumed h h = []"
  by (simp add: consumed_def)

lemma loadSlot_Inr:
  assumes "loadSlot env items h = Inr (items', h')"
  shows "\<exists>s. consumed h h' = enc_slot s
            \<and> items' = (if filled s then items @ [slot_item env s] else items)
            \<and> hdata h' = hdata h \<and> hpos h \<le> hpos h' \<and> hpos h' \<le> length (hdata h)"
proof -
  from assms obtain st h1 where a: "r16 h = Inr (st, h1)"
    and r: "(if 0 < sint st then
               bindR r32 (\<lambda>itemid. bindR r8 (\<lambda>prefixid.
                 ret (items @ [\<lparr>i_stack = sint st, i_name = info_items env (sint itemid),
                                 i_prefix = info_prefixes env (uint prefixid)\<rparr>])))
             else ret items) h1 = Inr (items', h')"
    unfolding loadSlot_def by (elim bindR_InrE)
  note a' = r16_Inr [OF a]
  show ?thesis
  proof (cases "0 < sint st")
    case False
    with r have "items' = items" "h' = h1" by simp_all
    with a' False show ?thesis
      by (intro exI [of _ "(st, 0, 0)"]) (simp add: enc_slot_def filled_def)
  next
    case True
    with r obtain itemid prefixid h2 where b: "r32 h1 = Inr (itemid, h2)"
      and c: "r8 h2 = Inr (prefixid, h')"
      and i: "items' = items @ [\<lparr>i_stack = sint st, i_name = info_items env (sint itemid),
                                 i_prefix = info_prefixes env (uint prefixid)\<rparr>]"
      by (auto elim!: bindR_InrE)
    note b' = r32_Inr_bytes [OF b] and c' = r8_Inr [OF c]
    have c2: "consumed h2 h' = [prefixid]"
      using c' by (simp add: consumed_def take_drop_Suc [of _ _ 0, simplified])
    have "consumed h h' = consumed h h2 @ consumed h2 h'"
      using a' b' c' by (intro consumed_append) simp_all
    also have "consumed h h2 = consumed h h1 @ consumed h1 h2"
      using a' b' c' by (intro consumed_append) simp_all
    finally have "consumed h h' = enc_slot (st, itemid, prefixid)"
      using a' b' c2 True by (simp add: enc_slot_def)
    with a' b' c' True i show ?thesis
      by (intro exI [of _ "(st, itemid, prefixid)"]) (simp add: filled_def slot_item_def)
  qed
qed

lemma loadSlots_Inr:
  "repeatR n (loadSlot env) items h = Inr (items', h') \<Longrightarrow>
   \<exists>slots. length slots = n \<and> consumed h h' = concat (map enc_slot slots)
     \<and> items' = items @ map (slot_item env) (filter filled slots)
     \<and> hdata h' = hdata h \<and> hpos h \<le> hpos h' \<and> (n = 0 \<or> hpos h' \<le> length (hdata h))"
proof (induction n arbitrary: items h)
  case 0
  then show ?case by simp
next
  case (Suc n)
  from Suc.prems obtain items1 h1 where a: "loadSlot env items h = Inr (items1, h1)"
    and b: "repeatR n (loadSlot env) items1 h1 = Inr (items', h')"
    by (auto elim!: bindR_InrE)
  from loadSlot_Inr [OF a] obtain s where s: "consumed h h1 = enc_slot s"
    "items1 = (if filled s then items @ [slot_item env s] else items)"
    "hdata h1 = hdata h" "hpos h \<le> hpos h1" "hpos h1 \<le> length (hdata h)"
    by blast
  from Suc.IH [OF b] obtain slots where t: "length slots = n"
    "consumed h1 h' = concat (map enc_slot slots)"
    "items' = items1 @ map (slot_item env) (filter filled slots)"
    "hdata h' = hdata h1" "hpos h1 \<le> hpos h'" "n = 0 \<or> hpos h' \<le> length (hdata h1)"
    by blast
  have le: "hpos h' \<le> length (hdata h)"
  proof (cases "n = 0")
    case True
    with b have "h' = h1" by simp
    with s show ?thesis by simp
  next
    case False
    with t s show ?thesis by simp
  qed
  have "consumed h h' = consumed h h1 @ consumed h1 h'"
    using s t le by (intro consumed_append) simp_all
  with s t le show ?case
    by (intro exI [of _ "s # slots"]) simp
qed

text \<open>
  C7: for every chest decoded from the chests section, the bytes read after the name are
  those of \<open>itemsPerChest\<close> slots, each a 16-bit stack followed, only when the stack is
  greater than 0, by a 32-bit item id and a prefix byte; the items list of the chest holds
  exactly the slots whose stack is greater than 0, in their slot order; and the name and
  prefix of each item are the registry's entries for the item id and the prefix id read
  after the stack.
\<close>

theorem chest_items_are_filled_slots:
  assumes "loadChest env itemsPerChest h = Inr (chest, h')"
  shows "\<exists>slots x y h1 h2 h3.
           r32 h = Inr (x, h1) \<and> r32 h1 = Inr (y, h2) \<and> rs h2 = Inr (c_name chest, h3)
           \<and> c_x chest = sint x \<and> c_y chest = sint y
           \<and> length slots = nat itemsPerChest
           \<and> consumed h3 h' = concat (map enc_slot slots)
           \<and> c_items chest = map (slot_item env) (filter filled slots)"
proof -
  from assms obtain x h1 y h2 name h3 items where a: "r32 h = Inr (x, h1)"
    and b: "r32 h1 = Inr (y, h2)" and c: "rs h2 = Inr (name, h3)"
    and d: "repeatR (nat itemsPerChest) (loadSlot env) [] h3 = Inr (items, h')"
    and e: "chest = \<lparr>c_x = sint x, c_y = sint y, c_name = name, c_items = items\<rparr>"
    by (auto simp: loadChest_def elim!: bindR_InrE)
  from loadSlots_Inr [OF d] obtain slots where "length slots = nat itemsPerChest"
    "consumed h3 h' = concat (map enc_slot slots)"
    "items = map (slot_item env) (filter filled slots)"
    by auto
  with a b c e show ?thesis by auto
qed

theorem chest_items_are_filled_slots_witness:
  "loadChest (demo_env False []) 3
        \<lparr>hdata = chest_bytes @ concat (map enc_slot [(2, 1, 1), (0, 0, 0), (5, 3, 0)]) @ [0xAA], hpos = 0\<rparr>
     = Inr (\<lparr>c_x = 7, c_y = 9, c_name = [],
             c_items = [\<lparr>i_stack = 2, i_name = map of_char ''Iron Pickaxe'', i_prefix = map of_char ''Large''\<rparr>,
                        \<lparr>i_stack = 5, i_name = [], i_prefix = []\<rparr>]\<rparr>,
            \<lparr>hdata = chest_bytes @ concat (map enc_slot [(2, 1, 1), (0, 0, 0), (5, 3, 0)]) @ [0xAA], hpos = 25\<rparr>)
   \<and> (\<exists>slots. length slots = nat 3
          \<and> [\<lparr>i_stack = 2, i_name = map of_char ''Iron Pickaxe'', i_prefix = map of_char ''Large''\<rparr>,
              \<lparr>i_stack = 5, i_name = [], i_prefix = []\<rparr>]
            = map (slot_item (demo_env False [])) (filter filled slots))"
proof -
  let ?slots = "[(2, 1, 1), (0, 0, 0), (5, 3, 0)] :: slot list"
  let ?d = "chest_bytes @ concat (map enc_slot ?slots) @ [0xAA]"
  have a: "r32 \<lparr>hdata = ?d, hpos = 0\<rparr> = Inr (7, \<lparr>hdata = ?d, hpos = 4\<rparr>)"
    by (simp add: chest_bytes_def reader_unfold)
  have b: "r32 \<lparr>hdata = ?d, hpos = 4\<rparr> = Inr (9, \<lparr>hdata = ?d, hpos = 8\<rparr>)"
    by (simp add: chest_bytes_def reader_unfold)
  have c: "rs \<lparr>hdata = ?d, hpos = 8\<rparr> = Inr ([], \<lparr>hdata = ?d, hpos = 9\<rparr>)"
    by (simp add: chest_bytes_def rs_def reader_unfold)
  have d: "hdata \<lparr>hdata = ?d, hpos = 9\<rparr> = chest_bytes @ concat (map enc_slot ?slots) @ [0xAA]"
    and e: "hpos \<lparr>hdata = ?d, hpos = 9\<rparr> = length chest_bytes"
    by (simp_all add: chest_bytes_def)
  have f: "map (slot_item (demo_env False [])) (filter filled ?slots)
      = [\<lparr>i_stack = 2, i_name = map of_char ''Iron Pickaxe'', i_prefix = map of_char ''Large''\<rparr>,
         \<lparr>i_stack = 5, i_name = [], i_prefix = []\<rparr>]"
    by (simp add: slot_item_def filled_def demo_env_def)
  have g: "length (concat (map enc_slot ?slots)) = 16"
    by (simp add: enc_slot_def enc16_def enc32_def)
  note t = loadChest_of_slots [OF a b c d e, of "demo_env False []", unfolded f g]
  then have l: "loadChest (demo_env False []) 3 \<lparr>hdata = ?d, hpos = 0\<rparr>
     = Inr (\<lparr>c_x = 7, c_y = 9, c_name = [],
             c_items = [\<lparr>i_stack = 2, i_name = map of_char ''Iron Pickaxe'', i_prefix = map of_char ''Large''\<rparr>,
                        \<lparr>i_stack = 5, i_name = [], i_prefix = []\<rparr>]\<rparr>,
            \<lparr>hdata = ?d, hpos = 25\<rparr>)"
    by simp
  from chest_items_are_filled_slots [OF l] have
    "\<exists>slots. length slots = nat 3
          \<and> [\<lparr>i_stack = 2, i_name = map of_char ''Iron Pickaxe'', i_prefix = map of_char ''Large''\<rparr>,
              \<lparr>i_stack = 5, i_name = [], i_prefix = []\<rparr>]
            = map (slot_item (demo_env False [])) (filter filled slots)"
    by auto
  with l show ?thesis by blast
qed

section \<open>The tiles section\<close>

lemma outside_refl [simp]: "outside b ts ts"
  by (simp add: outside_def)

lemma outside_trans: "outside b ts ts1 \<Longrightarrow> outside b ts1 ts2 \<Longrightarrow> outside b ts ts2"
  by (simp add: outside_def)

lemma copy_cells:
  assumes "0 < wide"
  shows "\<exists>ts'. (copy_cell wide offset ^^ n) (d, ts) = (d + int n * wide, ts')
           \<and> (\<forall>k. d + (int n - 1) * wide < k \<longrightarrow> ts' k = ts k)"
proof (induction n)
  case 0
  show ?case by simp
next
  case (Suc n)
  then obtain ts1 where
    a: "(copy_cell wide offset ^^ n) (d, ts) = (d + int n * wide, ts1)" and
    b: "\<forall>k. d + (int n - 1) * wide < k \<longrightarrow> ts1 k = ts k"
    by blast
  have c: "(copy_cell wide offset ^^ Suc n) (d, ts)
      = (d + int (Suc n) * wide, ts1(d + int n * wide := ts1 offset))"
    by (simp add: a) (simp add: copy_cell_def algebra_simps)
  have "(ts1(d + int n * wide := ts1 offset)) k = ts k" if "d + (int (Suc n) - 1) * wide < k" for k
  proof -
    from that have k: "d + int n * wide < k" by simp
    have "(int n - 1) * wide \<le> int n * wide"
      using assms by (intro mult_right_mono) simp_all
    with k have "d + (int n - 1) * wide < k" by linarith
    with b k show ?thesis by simp
  qed
  with c show ?case by blast
qed

lemma cell_in_bounds:
  fixes x y wide high :: int
  assumes "0 \<le> x" and "x < wide" and "y < high"
  shows "x + y * wide < wide * high"
proof -
  have "y * wide \<le> (high - 1) * wide"
    using assms by (intro mult_right_mono) simp_all
  then have "x + y * wide < wide + (high - 1) * wide"
    using assms by linarith
  then show ?thesis by (simp add: algebra_simps)
qed

lemma copy_run_outside:
  assumes "0 \<le> x" and "x < wide" and "0 \<le> rle" and "y + rle < high"
    and "copy_run rle wide (x + y * wide) ts = (destOffset, ts')"
  shows "destOffset = x + (y + rle + 1) * wide \<and> outside (wide * high) ts ts'"
proof -
  from assms have w: "0 < wide" by simp
  from copy_cells [OF w, where offset = "x + y * wide" and n = "nat rle"
      and d = "x + y * wide + wide" and ts = ts] assms(3,5)
  have d: "destOffset = x + y * wide + wide + rle * wide"
    and f: "\<forall>k. x + y * wide + wide + (rle - 1) * wide < k \<longrightarrow> ts' k = ts k"
    by (auto simp: copy_run_def)
  have "x + (y + rle) * wide < wide * high"
    using assms(1,2,4) by (rule cell_in_bounds)
  moreover have "x + y * wide + wide + (rle - 1) * wide = x + (y + rle) * wide"
    by (simp add: algebra_simps)
  ultimately have "outside (wide * high) ts ts'"
    using f by (simp add: outside_def)
  moreover have "destOffset = x + (y + rle + 1) * wide"
    using d by (simp add: algebra_simps)
  ultimately show ?thesis by simp
qed

lemma loadColumn_checked_sound:
  "loadColumn_checked wide high extra y offset ts h = Inr (ts', h') \<Longrightarrow>
   offset = x + y * wide \<Longrightarrow> 0 \<le> x \<Longrightarrow> x < wide \<Longrightarrow>
   loadColumn wide high extra y offset ts h = Inr (ts', h') \<and> outside (wide * high) ts ts'"
proof (induction wide high extra y offset ts h rule: loadColumn_checked.induct)
  case (1 wide high extra y offset ts h)
  show ?case
  proof (cases "y < high")
    case False
    with "1.prems"(1) show ?thesis
      by (simp add: loadColumn_checked.simps loadColumn.simps)
  next
    case True
    note cs = loadColumn_checked.simps [of wide high extra y offset ts h]
    with "1.prems"(1) True obtain rle t h1 where
      tl: "Tile_load extra (ts offset) h = Inr ((rle, t), h1)"
      by (auto split: sum.splits)
    from "1.prems"(1) True tl have ok: "\<not> (rle < 0 \<or> high \<le> y + rle)"
      by (auto simp: cs split: if_splits)
    obtain destOffset ts1 where
      cr: "copy_run rle wide offset (ts(offset := t)) = (destOffset, ts1)"
      by (cases "copy_run rle wide offset (ts(offset := t))")
    from "1.prems"(1) True tl ok cr have
      rec: "loadColumn_checked wide high extra (y + rle + 1) destOffset ts1 h1 = Inr (ts', h')"
      by (simp add: cs)
    from ok have r: "0 \<le> rle" "y + rle < high" by simp_all
    from copy_run_outside [OF "1.prems"(3,4) r, of "ts(offset := t)" destOffset ts1] cr "1.prems"(2)
    have d: "destOffset = x + (y + rle + 1) * wide"
      and o2: "outside (wide * high) (ts(offset := t)) ts1"
      by simp_all
    have "offset < wide * high"
      unfolding "1.prems"(2) using "1.prems"(3,4) True by (rule cell_in_bounds)
    then have o1: "outside (wide * high) ts (ts(offset := t))"
      by (simp add: outside_def)
    from "1.IH" [OF True tl refl refl ok cr [symmetric] rec d "1.prems"(3,4)]
    have l: "loadColumn wide high extra (y + rle + 1) destOffset ts1 h1 = Inr (ts', h')"
      and o3: "outside (wide * high) ts1 ts'"
      by simp_all
    have "loadColumn wide high extra y offset ts h = Inr (ts', h')"
      using True tl cr l by (simp add: loadColumn.simps [of wide high extra y offset ts h])
    moreover have "outside (wide * high) ts ts'"
      using o1 o2 o3 by (blast intro: outside_trans)
    ultimately show ?thesis by simp
  qed
qed

lemma loadColumns_checked_sound:
  "loadColumns_checked wide high extra x ts h = Inr (ts', h') \<Longrightarrow> 0 \<le> x \<Longrightarrow>
   loadColumns wide high extra x ts h = Inr (ts', h') \<and> outside (wide * high) ts ts'"
proof (induction wide high extra x ts h rule: loadColumns_checked.induct)
  case (1 wide high extra x ts h)
  show ?case
  proof (cases "x < wide")
    case False
    with "1.prems"(1) show ?thesis
      by (simp add: loadColumns_checked.simps loadColumns.simps)
  next
    case True
    with "1.prems"(1) obtain ts1 h1 where
      c: "loadColumn_checked wide high extra 0 x ts h = Inr (ts1, h1)" and
      r: "loadColumns_checked wide high extra (x + 1) ts1 h1 = Inr (ts', h')"
      by (auto simp: loadColumns_checked.simps [of wide high extra x ts h] split: sum.splits)
    from loadColumn_checked_sound [OF c _ "1.prems"(2) True]
    have c': "loadColumn wide high extra 0 x ts h = Inr (ts1, h1)"
      and o1: "outside (wide * high) ts ts1" by simp_all
    from "1.IH" [OF True c refl r] "1.prems"(2)
    have r': "loadColumns wide high extra (x + 1) ts1 h1 = Inr (ts', h')"
      and o2: "outside (wide * high) ts1 ts'" by simp_all
    from True c' r' have "loadColumns wide high extra x ts h = Inr (ts', h')"
      by (simp add: loadColumns.simps [of wide high extra x ts h])
    with o1 o2 show ?thesis by (blast intro: outside_trans)
  qed
qed

lemma never_Tile_load:
  "e \<noteq> UnexpectedEof \<Longrightarrow> e \<noteq> IndexOutOfRange \<Longrightarrow> never e (Tile_load extra t)"
  unfolding Tile_load_def Tile_fields_def load_flags_def load_active_def load_wall_def
    load_liquid_def load_wires_def Tile_rle_def
  by (intro never_intros) simp_all

lemma loadColumn_never:
  "e \<noteq> UnexpectedEof \<Longrightarrow> e \<noteq> IndexOutOfRange \<Longrightarrow>
   loadColumn wide high extra y offset ts h \<noteq> Inl e"
proof (induction wide high extra y offset ts h rule: loadColumn.induct)
  case (1 wide high extra y offset ts h)
  show ?case
  proof (cases "y < high")
    case False
    then show ?thesis by (simp add: loadColumn.simps [of wide high extra y offset ts h])
  next
    case True
    note cs = loadColumn.simps [of wide high extra y offset ts h]
    show ?thesis
    proof (cases "Tile_load extra (ts offset) h")
      case (Inl e')
      with never_Tile_load [OF "1.prems", of extra "ts offset"] have "e' \<noteq> e"
        by (auto simp: never_def)
      with True Inl show ?thesis by (simp add: cs)
    next
      case (Inr r)
      obtain rle t h1 where r: "r = ((rle, t), h1)" by (cases r) auto
      obtain destOffset ts1 where
        cr: "copy_run rle wide offset (ts(offset := t)) = (destOffset, ts1)"
        by (cases "copy_run rle wide offset (ts(offset := t))")
      from "1.IH" [OF True Inr [unfolded r] refl refl cr [symmetric] "1.prems"]
      show ?thesis using True Inr r cr by (simp add: cs)
    qed
  qed
qed

lemma loadColumns_never:
  "e \<noteq> UnexpectedEof \<Longrightarrow> e \<noteq> IndexOutOfRange \<Longrightarrow>
   loadColumns wide high extra x ts h \<noteq> Inl e"
proof (induction wide high extra x ts h rule: loadColumns.induct)
  case (1 wide high extra x ts h)
  show ?case
  proof (cases "x < wide")
    case False
    then show ?thesis by (simp add: loadColumns.simps [of wide high extra x ts h])
  next
    case True
    note cs = loadColumns.simps [of wide high extra x ts h]
    show ?thesis
    proof (cases "loadColumn wide high extra 0 x ts h")
      case (Inl e')
      with loadColumn_never [OF "1.prems", of wide high extra 0 x ts h] True show ?thesis
        by (simp add: cs)
    next
      case (Inr r)
      obtain ts1 h1 where r: "r = (ts1, h1)" by (cases r)
      from "1.IH" [OF True Inr [unfolded r] refl "1.prems"] True Inr r show ?thesis
        by (simp add: cs)
    qed
  qed
qed

text \<open>
  Where every run fits its column, that is, where the decoder with the bounds check
  succeeds, the decoder of the source returns the same result and leaves every cell at an
  offset at or beyond \<open>tilesWide * tilesHigh\<close> as it was.
\<close>

lemma loadTiles_in_bounds_when_runs_fit:
  assumes "loadTiles_checked extra w h = Inr (w', h')"
  shows "loadTiles extra w h = Inr (w', h')
         \<and> (\<forall>offset. tilesWide w * tilesHigh w \<le> offset \<longrightarrow> tiles w' offset = tiles w offset)"
proof -
  from assms obtain ts' where
    c: "loadColumns_checked (tilesWide w) (tilesHigh w) extra 0 (tiles w) h = Inr (ts', h')"
    and w': "w' = w\<lparr>tiles := ts'\<rparr>"
    by (auto simp: loadTiles_checked_def elim!: bindR_InrE)
  from loadColumns_checked_sound [OF c]
  have l: "loadColumns (tilesWide w) (tilesHigh w) extra 0 (tiles w) h = Inr (ts', h')"
    and o: "outside (tilesWide w * tilesHigh w) (tiles w) ts'" by simp_all
  have 1: "loadTiles extra w h = Inr (w', h')"
    using l w' by (simp add: loadTiles_def bindR_def ret_def)
  have 2: "\<forall>offset. tilesWide w * tilesHigh w \<le> offset \<longrightarrow> tiles w' offset = tiles w offset"
    using o w' by (simp add: outside_def)
  from 1 2 show ?thesis by blast
qed

lemma loadTiles_in_bounds_example:
  "\<exists>w'. loadTiles_checked [] wet_world \<lparr>hdata = [0x40, 1, 0x40, 1], hpos = 0\<rparr>
           = Inr (w', \<lparr>hdata = [0x40, 1, 0x40, 1], hpos = 4\<rparr>)
      \<and> loadTiles [] wet_world \<lparr>hdata = [0x40, 1, 0x40, 1], hpos = 0\<rparr>
           = Inr (w', \<lparr>hdata = [0x40, 1, 0x40, 1], hpos = 4\<rparr>)
      \<and> tiles w' 3 = blank_tile \<and> tiles w' 4 = tiles wet_world 4"
proof -
  let ?h = "\<lparr>hdata = [0x40, 1, 0x40, 1], hpos = 0\<rparr>" and ?h' = "\<lparr>hdata = [0x40, 1, 0x40, 1], hpos = 4\<rparr>"
  have "\<exists>w'. loadTiles_checked [] wet_world ?h = Inr (w', ?h') \<and> tiles w' 3 = blank_tile"
    by (simp add: tiles_checked_unfold wet_world_def demo_world_def)
  then obtain w' where c: "loadTiles_checked [] wet_world ?h = Inr (w', ?h')"
    and t: "tiles w' 3 = blank_tile" by blast
  have b: "tilesWide wet_world * tilesHigh wet_world \<le> 4"
    by (simp add: wet_world_def demo_world_def)
  from loadTiles_in_bounds_when_runs_fit [OF c] b
  have "loadTiles [] wet_world ?h = Inr (w', ?h')" and "tiles w' 4 = tiles wet_world 4"
    by blast+
  with c t show ?thesis by blast
qed

text \<open>The decoder of the source has no failure of its own: none but the reader's.\<close>

lemma loadTiles_no_CorruptTileStream:
  "loadTiles extra w h \<noteq> Inl CorruptTileStream"
  using loadColumns_never [of CorruptTileStream "tilesWide w" "tilesHigh w" extra 0 "tiles w" h]
  by (auto simp: loadTiles_def bindR_def ret_def split: sum.splits)

text \<open>
  C2: a run that would push \<open>y\<close> beyond \<open>tilesHigh\<close> must fail with
  \<open>CorruptTileStream\<close>, so that no cell at an offset at or beyond
  \<open>tilesWide * tilesHigh\<close> is ever written. The code does not do so. In the 2 by 2
  example world, whose array \<^verbatim>\<open>new Tile[4]\<close> has the offsets 0 to 3, the stream
  \<open>40 02 40 01\<close> starts with a record of run length 2 at row 0: the decoder with the bounds
  check rejects it, while \<^verbatim>\<open>World::loadTiles\<close> copies the tile to the offsets 2 and 4, the
  second of which is \<open>tilesWide * tilesHigh\<close>, past the end of the array, and loads the
  section without an error.
\<close>

theorem overlong_run_is_copied_out_of_bounds:
  "loadTiles [] wet_world \<lparr>hdata = [0x40, 2, 0x40, 1], hpos = 0\<rparr>
     = Inr (wet_world\<lparr>tiles := (tiles wet_world)
              (0 := blank_tile, 2 := blank_tile, 4 := blank_tile, 1 := blank_tile, 3 := blank_tile)\<rparr>,
            \<lparr>hdata = [0x40, 2, 0x40, 1], hpos = 4\<rparr>)
   \<and> tilesWide wet_world * tilesHigh wet_world \<le> 4
   \<and> tiles wet_world 4 \<noteq> blank_tile
   \<and> loadTiles_checked [] wet_world \<lparr>hdata = [0x40, 2, 0x40, 1], hpos = 0\<rparr>
     = Inl CorruptTileStream"
  by (simp add: tiles_unfold tiles_checked_unfold wet_world_def demo_world_def)

section \<open>The decoder on a whole file\<close>

text \<open>
  \<^verbatim>\<open>World::run\<close> on the example file, with a player whose map file does not exist: every
  section is read where the section table says, the four tiles are inactive and, after
  the overlay, seen, and \<^verbatim>\<open>loaded(true)\<close> is the only signal.
\<close>

lemmas run_unfold =
  run_def run_handle_def run_prologue_def run_sections_def seek_section_def seek_def
  loadHeader_def loadChests_def loadSigns_def loadNPCs_def loadHomedNPCs.simps
  readBitmap_def emit_def seen_all_def seen_next_def active_def

lemma run_small_file:
  "\<exists>w' h'. run (demo_env False small_file) demo_world = Inr (w', h')
      \<and> events w' = [Loaded True] \<and> chests w' = [] \<and> signs w' = [] \<and> npcs w' = []
      \<and> \<not> active (tiles w' 0) \<and> seen (tiles w' 0) \<and> seen (tiles w' 3)
      \<and> hpos h' = 44"
  by (simp add: run_unfold tiles_unfold player_unfold reader_unfold small_file_def)

end
